theory Spec2Isabelle
  imports Complex_Main "HOL-Library.Monad_Syntax" "HOL-Library.Char_ord" "HOL-Library.List_Lexorder"
begin

section \<open>Conventions of the embedding\<close>

text \<open>
  The Python sources compute with \<open>float\<close> and unbounded \<open>int\<close>.  Floats are
  embedded as \<^typ>\<open>real\<close> (exact arithmetic: rounding, infinities and NaN are not
  modelled), Python ints as \<^typ>\<open>int\<close>.  A raised exception is a value: \<open>None\<close>
  where the kind of exception plays no role (each definition says which exception it is),
  a constructor of a result datatype elsewhere.
\<close>

definition py_index :: "'a list \<Rightarrow> int \<Rightarrow> 'a option" where
  \<comment> \<open>\<open>xs[i]\<close>: a negative index counts from the end, out of range raises IndexError.\<close>
  "py_index xs i =
     (let n = int (length xs); j = (if i < 0 then i + n else i)
      in if 0 \<le> j \<and> j < n then Some (xs ! nat j) else None)"

definition py_int :: "real \<Rightarrow> int" where
  \<comment> \<open>\<open>int(x)\<close> on a float: truncation towards zero.\<close>
  "py_int x = (if 0 \<le> x then \<lfloor>x\<rfloor> else \<lceil>x\<rceil>)"

section \<open>lut\_runtime\_v2.py: the sizing oracle\<close>

record lut =
  s_grid :: "real list"
  r_grid :: "real list"
  g :: "real list list"

text \<open>
  \<open>bisect.bisect_right(a, x)\<close> of the standard library, as its binary search:
  \<^verbatim>\<open>lo, hi = 0, len(a)
while lo < hi:
    mid = (lo + hi) // 2
    if x < a[mid]: hi = mid
    else: lo = mid + 1
return lo\<close>
\<close>

function bisect_right_loop :: "real list \<Rightarrow> real \<Rightarrow> nat \<Rightarrow> nat \<Rightarrow> nat" where
  "bisect_right_loop a x lo hi =
     (if lo < hi
      then (let mid = (lo + hi) div 2
            in if x < a ! mid then bisect_right_loop a x lo mid
               else bisect_right_loop a x (mid + 1) hi)
      else lo)"
  by pat_completeness auto
termination
  by (relation "measure (\<lambda>(a, x, lo, hi). hi - lo)") auto

declare bisect_right_loop.simps [simp del]

definition bisect_right :: "real list \<Rightarrow> real \<Rightarrow> nat" where
  "bisect_right a x = bisect_right_loop a x 0 (length a)"

definition interp1 :: "real list \<Rightarrow> real list \<Rightarrow> real \<Rightarrow> real option" where
  \<comment> \<open>\<open>_interp1(x_grid, y_grid, x)\<close>\<close>
  "interp1 x_grid y_grid x = do {
     xlo \<leftarrow> py_index x_grid 0;
     if x \<le> xlo then py_index y_grid 0
     else do {
       xhi \<leftarrow> py_index x_grid (- 1);
       if x \<ge> xhi then py_index y_grid (- 1)
       else do {
         let k = int (bisect_right x_grid x) - 1;
         x0 \<leftarrow> py_index x_grid k;
         x1 \<leftarrow> py_index x_grid (k + 1);
         y0 \<leftarrow> py_index y_grid k;
         y1 \<leftarrow> py_index y_grid (k + 1);
         let t = (if x1 \<noteq> x0 then (x - x0) / (x1 - x0) else 0);
         Some (y0 + t * (y1 - y0))
       }
     }
   }"

definition interp2_cell :: "real list \<Rightarrow> real \<Rightarrow> (int \<times> int \<times> real) option" where
  \<comment> \<open>The \<open>if/elif/else\<close> of \<open>_interp2\<close> that chooses \<open>i0, i1, ts\<close>.\<close>
  "interp2_cell sg s = do {
     slo \<leftarrow> py_index sg 0;
     if s \<le> slo then Some (0, 0, 0)
     else do {
       shi \<leftarrow> py_index sg (- 1);
       if s \<ge> shi then Some (int (length sg) - 1, int (length sg) - 1, 0)
       else do {
         let i0 = int (bisect_right sg s) - 1;
         let i1 = i0 + 1;
         s0 \<leftarrow> py_index sg i0;
         s1 \<leftarrow> py_index sg i1;
         Some (i0, i1, if s1 \<noteq> s0 then (s - s0) / (s1 - s0) else 0)
       }
     }
   }"

definition interp2 :: "real list \<Rightarrow> real list \<Rightarrow> real list list \<Rightarrow> real \<Rightarrow> real \<Rightarrow> real option" where
  \<comment> \<open>\<open>_interp2(s_grid, r_grid, G, s, r)\<close>\<close>
  "interp2 sg rg G s r = do {
     (i0, i1, ts) \<leftarrow> interp2_cell sg s;
     row0 \<leftarrow> py_index G i0;
     row1 \<leftarrow> py_index G i1;
     g0 \<leftarrow> interp1 rg row0 r;
     g1 \<leftarrow> interp1 rg row1 r;
     Some (g0 + ts * (g1 - g0))
   }"

definition size_from_lut :: "lut \<Rightarrow> real \<Rightarrow> real \<Rightarrow> real \<Rightarrow> real option" where
  "size_from_lut l s b1 b2 =
     (let L = min b1 b2
      in if L \<le> 0 then Some 0
         else do {
           let r = (if b1 > 0 then b2 / b1 else 0);
           gv \<leftarrow> interp2 (s_grid l) (r_grid l) (g l) s r;
           Some (L * max 0 gv)
         })"

definition lut_shape_ok :: "lut \<Rightarrow> bool" where
  \<comment> \<open>The shape invariants of the sizing-grid file, on a grid that has at least one node per axis.\<close>
  "lut_shape_ok l \<longleftrightarrow>
     s_grid l \<noteq> [] \<and> r_grid l \<noteq> [] \<and> length (g l) = length (s_grid l) \<and>
     list_all (\<lambda>row. length row = length (r_grid l)) (g l)"

section \<open>The sizing lookup in the words of the specification\<close>

text \<open>
  Bilinear interpolation with end-clamping, written from the specification and not from
  the code: both inputs are clamped to the span of their grid, the grid cell that holds
  the clamped point is located by counting the nodes at or below it, and the value is the
  weighted mean of the four corners of that cell.  On an axis with a single node the cell
  degenerates to that node.  \<open>linear_spec\<close> is the one-dimensional analogue.
\<close>

definition clamp :: "real \<Rightarrow> real \<Rightarrow> real \<Rightarrow> real" where
  "clamp lo hi x = max lo (min hi x)"

definition cell_of :: "real list \<Rightarrow> real \<Rightarrow> nat" where
  "cell_of xs x = min (length xs - 2) (length (filter (\<lambda>y. y \<le> x) xs) - 1)"

definition next_node :: "real list \<Rightarrow> nat \<Rightarrow> nat" where
  "next_node xs i = min (Suc i) (length xs - 1)"

definition frac_in_cell :: "real list \<Rightarrow> nat \<Rightarrow> real \<Rightarrow> real" where
  "frac_in_cell xs i x = (if Suc i < length xs then (x - xs ! i) / (xs ! Suc i - xs ! i) else 0)"

definition linear_spec :: "real list \<Rightarrow> real list \<Rightarrow> real \<Rightarrow> real" where
  "linear_spec xs ys x =
     (let x' = clamp (hd xs) (last xs) x; i = cell_of xs x'; v = frac_in_cell xs i x'
      in (1 - v) * ys ! i + v * ys ! next_node xs i)"

definition bilinear_spec :: "real list \<Rightarrow> real list \<Rightarrow> real list list \<Rightarrow> real \<Rightarrow> real \<Rightarrow> real" where
  "bilinear_spec sg rg G s r =
     (let s' = clamp (hd sg) (last sg) s; r' = clamp (hd rg) (last rg) r;
          i = cell_of sg s'; j = cell_of rg r';
          u = frac_in_cell sg i s'; v = frac_in_cell rg j r'
      in (1 - u) * (1 - v) * G ! i ! j + (1 - u) * v * G ! i ! next_node rg j
         + u * (1 - v) * G ! next_node sg i ! j + u * v * G ! next_node sg i ! next_node rg j)"

definition lut_wf :: "lut \<Rightarrow> bool" where
  "lut_wf l \<longleftrightarrow> lut_shape_ok l \<and> sorted_wrt (<) (s_grid l) \<and> sorted_wrt (<) (r_grid l)"

section \<open>arbitrage\_bot.py: the AMM model\<close>

definition calculate_price_impact_amm :: "real \<Rightarrow> real \<Rightarrow> real \<Rightarrow> real \<Rightarrow> (real \<times> real) option" where
  \<comment> \<open>\<open>None\<close> is the ZeroDivisionError of \<open>reserve_in + amount_in_with_fee = 0\<close>.\<close>
  "calculate_price_impact_amm amount_in reserve_in reserve_out fee_percent =
     (if reserve_in \<le> 0 \<or> reserve_out \<le> 0 \<or> amount_in \<le> 0 then Some (0, 0)
      else
        let original_price = reserve_out / reserve_in;
            fee_multiplier = 1 - (fee_percent / 100);
            amount_in_with_fee = amount_in * fee_multiplier
        in if reserve_in + amount_in_with_fee = 0 then None
           else
             let amount_out = (amount_in_with_fee * reserve_out) / (reserve_in + amount_in_with_fee);
                 actual_price = amount_out / amount_in;
                 price_impact = ((original_price - actual_price) / original_price) * 100
             in Some (amount_out, price_impact))"

section \<open>arbitrage\_bot.py: the final-output bound of prepare\_universal\_params\<close>

text \<open>
  The arithmetic of \<open>prepare_universal_params\<close> that produces the \<open>min_amount_out\<close>
  encoded as the fourth component of the executor params.  \<open>loan_amount\<close> is the loan
  in wei, \<open>fee_percent\<close> the value of \<open>get_flash_loan_fee()\<close> (a percentage),
  \<open>base_out_dec\<close> the second swap's modelled output in token units.
\<close>

definition flash_loan_fee_amount :: "int \<Rightarrow> real \<Rightarrow> int" where
  "flash_loan_fee_amount loan_amount fee_percent = py_int (real_of_int loan_amount * fee_percent / 100)"

definition required_repay :: "int \<Rightarrow> real \<Rightarrow> int" where
  "required_repay loan_amount fee_percent = loan_amount + flash_loan_fee_amount loan_amount fee_percent"

definition expected_out_wei :: "real \<Rightarrow> nat \<Rightarrow> int" where
  "expected_out_wei base_out_dec base_decimals = py_int (base_out_dec * 10 ^ base_decimals)"

definition slippage :: real where
  "slippage = 0.005"

definition min_amount_out :: "real \<Rightarrow> nat \<Rightarrow> int \<Rightarrow> real \<Rightarrow> int option" where
  \<comment> \<open>\<open>None\<close>: the function returns \<open>None\<close> at its profitability test and no transaction is prepared.\<close>
  "min_amount_out base_out_dec base_decimals loan_amount fee_percent =
     (let e = expected_out_wei base_out_dec base_decimals;
          repay = required_repay loan_amount fee_percent
      in if e \<le> repay then None
         else
           let m = py_int (real_of_int e * (1 - slippage))
           in Some (if m < repay then repay + 1 else m))"

section \<open>arbitrage\_bot.py: CREATE2 pair address\<close>

definition lower_char :: "char \<Rightarrow> char" where
  "lower_char c = (if CHR ''A'' \<le> c \<and> c \<le> CHR ''Z'' then char_of (of_char c + (32::nat)) else c)"

definition lower :: "string \<Rightarrow> string" where
  \<comment> \<open>\<open>str.lower()\<close> on ASCII text\<close>
  "lower s = map lower_char s"

definition startswith :: "string \<Rightarrow> string \<Rightarrow> bool" where
  "startswith s p = (take (length p) s = p)"

definition strip_0x :: "string \<Rightarrow> string" where
  \<comment> \<open>\<open>s[2:] if s.startswith('0x') else s\<close>\<close>
  "strip_0x s = (if startswith s ''0x'' then drop 2 s else s)"

text \<open>
  The functions of \<open>eth_abi\<close>, \<open>eth_utils\<close> and \<open>web3\<close> that the derivation calls are
  parameters; byte strings are \<^typ>\<open>string\<close>.  \<open>Web3.to_checksum_address\<close> lower-cases
  its argument before it validates and hashes it, so it is a function of the lower-cased
  text (\<open>None\<close>: ValueError on a malformed address).
\<close>

record eth_lib =
  checksum_of_normalized :: "string \<Rightarrow> string option"
  abi_encode_addresses :: "string \<Rightarrow> string \<Rightarrow> string"
  keccak :: "string \<Rightarrow> string"
  bytes_hex :: "string \<Rightarrow> string"
  bytes_fromhex :: "string \<Rightarrow> string option"

definition to_checksum_address :: "eth_lib \<Rightarrow> string \<Rightarrow> string option" where
  "to_checksum_address lib a = checksum_of_normalized lib (lower a)"

definition compute_pair_address_create2 :: "eth_lib \<Rightarrow> string \<Rightarrow> string \<Rightarrow> string \<Rightarrow> string \<Rightarrow> string option" where
  "compute_pair_address_create2 lib factory token0 token1 init_code_hash =
     (let (token0, token1) = (if lower token0 > lower token1 then (token1, token0) else (token0, token1));
          factory_clean = strip_0x factory;
          init_code_clean = strip_0x init_code_hash
      in do {
        c0 \<leftarrow> to_checksum_address lib token0;
        c1 \<leftarrow> to_checksum_address lib token1;
        let encoded = abi_encode_addresses lib c0 c1;
        let salt = bytes_hex lib (keccak lib encoded);
        let data = ''ff'' @ factory_clean @ salt @ init_code_clean;
        raw \<leftarrow> bytes_fromhex lib data;
        let raw_address = bytes_hex lib (drop 12 (keccak lib raw));
        to_checksum_address lib (''0x'' @ raw_address)
      })"

section \<open>ankr\_reserves.py: the batched reserves fetcher\<close>

text \<open>
  A Python \<open>dict\<close> is an association list in insertion order; \<open>d[k] = v\<close> replaces the
  value of a key that is present and appends a new key otherwise.
\<close>

fun dict_set :: "('k \<times> 'v) list \<Rightarrow> 'k \<Rightarrow> 'v \<Rightarrow> ('k \<times> 'v) list" where
  "dict_set [] k v = [(k, v)]"
| "dict_set ((k', v') # d) k v = (if k' = k then (k, v) # d else (k', v') # dict_set d k v)"

definition dict_update :: "('k \<times> 'v) list \<Rightarrow> ('k \<times> 'v) list \<Rightarrow> ('k \<times> 'v) list" where
  \<comment> \<open>\<open>d.update(other)\<close>\<close>
  "dict_update d other = fold (\<lambda>(k, v) acc. dict_set acc k v) other d"

text \<open>
  \<open>int(s, 16)\<close> on a text of hexadecimal digits; \<open>None\<close> is the ValueError of an empty
  text or of a character that is no hexadecimal digit.  (Python also accepts a sign, a
  \<open>0x\<close> prefix, underscores and surrounding blanks; \<open>eth_call\<close> data has none of them and
  the model rejects them.)
\<close>

definition hex_digit :: "char \<Rightarrow> int option" where
  "hex_digit c =
     (if CHR ''0'' \<le> c \<and> c \<le> CHR ''9'' then Some (of_char c - 48)
      else if CHR ''a'' \<le> c \<and> c \<le> CHR ''f'' then Some (of_char c - 87)
      else if CHR ''A'' \<le> c \<and> c \<le> CHR ''F'' then Some (of_char c - 55)
      else None)"

fun int16_from :: "int \<Rightarrow> string \<Rightarrow> int option" where
  "int16_from acc [] = Some acc"
| "int16_from acc (c # cs) =
     (case hex_digit c of None \<Rightarrow> None | Some d \<Rightarrow> int16_from (16 * acc + d) cs)"

definition int16 :: "string \<Rightarrow> int option" where
  "int16 s = (if s = [] then None else int16_from 0 s)"

record reserves =
  reserve0 :: int
  reserve1 :: int
  token0 :: "string option"
  token1 :: "string option"

type_synonym reserves_map = "(string \<times> reserves) list"

text \<open>
  What the endpoint answers to one batch.  An element of a JSON array answer either has
  no \<open>"result"\<close> key or has one, holding a text or \<open>null\<close>.  Every answer that is not an
  array, and a timeout or any other exception of the POST, leaves the map empty.
\<close>

datatype json_item = NoResult | Result "string option"

datatype rpc_response =
  RespList "json_item list" | RespErrorDict | RespOtherDict | RespOtherJson | RespTimeout | RespException

datatype exn = TimeoutError | RateLimitError | OtherError

datatype net_result = SessionRaised exn | Response rpc_response

datatype 'a outcome = Returned 'a | Raised exn

definition decode_reserves :: "string \<Rightarrow> (int \<times> int) option" where
  \<comment> \<open>\<open>reserve0 = int(data[2:66], 16) if len(data) >= 66 else 0\<close>, then \<open>reserve1\<close> likewise\<close>
  "decode_reserves data = do {
     r0 \<leftarrow> (if length data \<ge> 66 then int16 (take 64 (drop 2 data)) else Some 0);
     r1 \<leftarrow> (if length data \<ge> 130 then int16 (take 64 (drop 66 data)) else Some 0);
     Some (r0, r1)
   }"

fun parse_results :: "json_item list \<Rightarrow> nat \<Rightarrow> string list \<Rightarrow> reserves_map \<Rightarrow> reserves_map" where
  \<comment> \<open>The loop \<open>for i, pair_address in enumerate(pairs)\<close>; a ValueError of the decoding
      reaches \<open>except Exception\<close>, which ends the loop and returns the map built so far.\<close>
  "parse_results results i [] reserves_map = reserves_map"
| "parse_results results i (pair_address # rest) reserves_map =
     (if i < length results then
        (case results ! i of
           NoResult \<Rightarrow> parse_results results (i + 1) rest reserves_map
         | Result None \<Rightarrow> parse_results results (i + 1) rest reserves_map
         | Result (Some data) \<Rightarrow>
             if data \<noteq> [] \<and> data \<noteq> ''0x'' then
               (case decode_reserves data of
                  None \<Rightarrow> reserves_map
                | Some (r0, r1) \<Rightarrow>
                    parse_results results (i + 1) rest
                      (dict_set reserves_map pair_address
                         \<lparr>reserve0 = r0, reserve1 = r1, token0 = None, token1 = None\<rparr>))
             else parse_results results (i + 1) rest reserves_map)
      else parse_results results (i + 1) rest reserves_map)"

definition get_reserves_batch :: "net_result \<Rightarrow> string list \<Rightarrow> reserves_map outcome" where
  \<comment> \<open>The first argument is what the network does with this batch's POST;
      \<open>SessionRaised\<close> is an exception of \<open>ensure_session\<close>, which is outside the \<open>try\<close>.\<close>
  "get_reserves_batch nr pairs =
     (if pairs = [] then Returned []
      else case nr of
        SessionRaised e \<Rightarrow> Raised e
      | Response (RespList results) \<Rightarrow> Returned (parse_results results 0 pairs [])
      | Response _ \<Rightarrow> Returned [])"

text \<open>
  The network is a function of the position of a call in the tree of calls (the path:
  the index of the top-level batch, then 0 for a left half, 1 for a right half, 2 for a
  retry of the same batch) and of the batch, so every call has an answer of its own.
  The two halves of a split are awaited together (\<open>asyncio.gather\<close>); the model
  evaluates both and merges left before right, as the code does.  Each function returns,
  beside its map, the log of the batches it posted with their \<open>retry_count\<close>.
\<close>

type_synonym network = "nat list \<Rightarrow> string list \<Rightarrow> net_result"

type_synonym call_log = "(string list \<times> nat) list"

definition MAX_RETRIES :: nat where
  "MAX_RETRIES = 3"

definition MIN_BATCH_SIZE :: nat where
  "MIN_BATCH_SIZE = 2"

function process_batch_with_retry ::
  "network \<Rightarrow> nat list \<Rightarrow> string list \<Rightarrow> nat \<Rightarrow> reserves_map \<times> call_log" where
  "process_batch_with_retry net path batch retry_count =
     (case get_reserves_batch (net path batch) batch of
        Returned result \<Rightarrow>
          if result \<noteq> [] then (result, [(batch, retry_count)])
          else if length batch > MIN_BATCH_SIZE \<and> retry_count < MAX_RETRIES then
            (let mid = length batch div 2;
                 left_batch = take mid batch;
                 right_batch = drop mid batch;
                 (left_result, left_log) =
                    process_batch_with_retry net (path @ [0]) left_batch (retry_count + 1);
                 (right_result, right_log) =
                    process_batch_with_retry net (path @ [1]) right_batch (retry_count + 1);
                 combined = dict_update (dict_update [] left_result) right_result
             in (combined, (batch, retry_count) # left_log @ right_log))
          else ([], [(batch, retry_count)])
      | Raised TimeoutError \<Rightarrow>
          if retry_count < MAX_RETRIES then
            (let (r, lg) = process_batch_with_retry net (path @ [2]) batch (retry_count + 1)
             in (r, (batch, retry_count) # lg))
          else ([], [(batch, retry_count)])
      | Raised RateLimitError \<Rightarrow>
          if retry_count < MAX_RETRIES then
            (let (r, lg) = process_batch_with_retry net (path @ [2]) batch (retry_count + 1)
             in (r, (batch, retry_count) # lg))
          else ([], [(batch, retry_count)])
      | Raised OtherError \<Rightarrow> ([], [(batch, retry_count)]))"
  by pat_completeness auto
termination
  by (relation "measure (\<lambda>(net, path, batch, retry_count). MAX_RETRIES - retry_count)") auto

declare process_batch_with_retry.simps [simp del]

definition BATCH_SIZE :: nat where
  "BATCH_SIZE = 30"

function make_batches :: "string list \<Rightarrow> string list list" where
  \<comment> \<open>\<open>for i in range(0, len(unique_pairs), BATCH_SIZE): batches.append(unique_pairs[i:i + BATCH_SIZE])\<close>\<close>
  "make_batches xs = (if xs = [] then [] else take BATCH_SIZE xs # make_batches (drop BATCH_SIZE xs))"
  by pat_completeness auto
termination
  by (relation "measure length") (auto simp add: BATCH_SIZE_def)

declare make_batches.simps [simp del]

fun run_batches :: "network \<Rightarrow> nat \<Rightarrow> string list list \<Rightarrow> reserves_map \<Rightarrow> reserves_map" where
  \<comment> \<open>The groups of \<open>CONCURRENCY = 1\<close> batch; batch number \<open>i\<close> is the root of its own call tree.\<close>
  "run_batches net i [] all_reserves = all_reserves"
| "run_batches net i (batch # rest) all_reserves =
     run_batches net (i + 1) rest
       (dict_update all_reserves (fst (process_batch_with_retry net [i] batch 0)))"

definition reserves_of_unique :: "network \<Rightarrow> string list \<Rightarrow> reserves_map" where
  "reserves_of_unique net unique_pairs = run_batches net 0 (make_batches unique_pairs) []"

definition get_reserves_many :: "network \<Rightarrow> string list \<Rightarrow> reserves_map" where
  \<comment> \<open>\<open>list(set(pairs))\<close> has no specified order; \<open>remdups\<close> is one of the possible orders.
      The final conversion to tuples keeps every entry with its four fields.\<close>
  "get_reserves_many net pairs =
     (if pairs = [] then [] else reserves_of_unique net (remdups pairs))"

text \<open>
  \<open>entry_of results pairs i e\<close>: the entry \<open>e\<close> is what the loop stores for request number
  \<open>i\<close> of the batch \<open>pairs\<close>: its key is \<open>pairs[i]\<close>, element \<open>i\<close> of the answer carries a
  non-empty result other than \<open>"0x"\<close>, the reserves are the two words decoded from it and
  the token fields are \<open>None\<close>.
\<close>

definition entry_of :: "json_item list \<Rightarrow> string list \<Rightarrow> nat \<Rightarrow> string \<times> reserves \<Rightarrow> bool" where
  "entry_of results pairs i e \<longleftrightarrow>
     i < length pairs \<and> i < length results \<and> fst e = pairs ! i \<and>
     (case results ! i of
        Result (Some data) \<Rightarrow>
          data \<noteq> [] \<and> data \<noteq> ''0x'' \<and>
          decode_reserves data = Some (reserve0 (snd e), reserve1 (snd e)) \<and>
          token0 (snd e) = None \<and> token1 (snd e) = None
      | _ \<Rightarrow> False)"

text \<open>
  \<open>issued_by net ps e\<close>: some batch of addresses from \<open>ps\<close> was answered by the network with
  an array, and \<open>e\<close> is the entry stored for one of its requests.
\<close>

definition issued_by :: "network \<Rightarrow> string set \<Rightarrow> string \<times> reserves \<Rightarrow> bool" where
  "issued_by net ps e \<longleftrightarrow>
     (\<exists>path batch results i.
        set batch \<subseteq> ps \<and> net path batch = Response (RespList results) \<and> entry_of results batch i e)"

section \<open>arbitrage\_bot.py: the candidate evaluator\<close>

datatype py_exn = TypeError | AttributeError | IndexError | ValueError | ZeroDivisionError

record evaluator_config =
  MIN_SPREAD_PERCENT :: real
  MIN_LIQUIDITY_USD :: real
  BASE_TOKEN_USD_PRICES :: "string \<rightharpoonup> real"
  base_tokens :: "string \<rightharpoonup> string"

text \<open>
  A call \<open>size_from_lut(lut, *args)\<close>: the function has three positional parameters after
  \<open>lut\<close>, and a call with any other number of arguments raises TypeError before the body
  runs.  An IndexError of the body is passed on.
\<close>

definition call_size_from_lut :: "lut \<Rightarrow> real list \<Rightarrow> py_exn + real" where
  "call_size_from_lut l args =
     (case args of
        [s, b1, b2] \<Rightarrow> (case size_from_lut l s b1 b2 of None \<Rightarrow> Inl IndexError | Some v \<Rightarrow> Inr v)
      | _ \<Rightarrow> Inl TypeError)"

subsection \<open>process\_v2\_combos: the body of the loop over combos\<close>

text \<open>
  One pass of the \<open>try\<close> body, cut at the source's comments into the reserve join with
  orientation, the spread check, the liquidity check and the sizing.  \<open>Skipped\<close> is a
  \<open>continue\<close> (or the end of the body with \<open>optimal_size = 0\<close>); \<open>Caught\<close> is an exception
  that \<open>except Exception\<close> swallows, after which the loop goes on with the next combo.
\<close>

datatype skip_reason =
  BadReserves | MissingField | NoBaseInPair | NoArbitrage | LowSpread | LowLiquidity | SizeZero

datatype combo_outcome = Skipped skip_reason | Caught py_exn


record combo_reserves =
  base_addr :: string
  buy_base_decimal :: real
  buy_trade_decimal :: real
  sell_base_decimal :: real
  sell_trade_decimal :: real


definition dict_get_default :: "('k \<rightharpoonup> 'v) \<Rightarrow> 'k \<Rightarrow> 'v \<Rightarrow> 'v" where
  \<comment> \<open>\<open>d.get(k, default)\<close>\<close>
  "dict_get_default d k dflt = (case d k of Some v \<Rightarrow> v | None \<Rightarrow> dflt)"





definition combo_base_price_usd :: "evaluator_config \<Rightarrow> combo_reserves \<Rightarrow> real" where
  "combo_base_price_usd cfg rs = dict_get_default (BASE_TOKEN_USD_PRICES cfg) (base_addr rs) 1"

definition buy_liquidity_usd :: "evaluator_config \<Rightarrow> combo_reserves \<Rightarrow> real" where
  "buy_liquidity_usd cfg rs = buy_base_decimal rs * combo_base_price_usd cfg rs * 2"

definition sell_liquidity_usd :: "evaluator_config \<Rightarrow> combo_reserves \<Rightarrow> real" where
  "sell_liquidity_usd cfg rs = sell_base_decimal rs * combo_base_price_usd cfg rs * 2"


definition combo_sizing :: "evaluator_config \<Rightarrow> lut option \<Rightarrow> real \<Rightarrow> combo_reserves \<Rightarrow> combo_outcome" where
  \<comment> \<open>\<open>if self.lut:\<close> with the call \<open>size_from_lut(self.lut, spread, r)\<close>.  The call that
      would build the opportunity afterwards passes keywords the dataclass does not have
      (\<open>liquidity_usd\<close>, \<open>price_impact\<close>, \<open>buy_pair\<close>, ...) and raises TypeError as well.\<close>
  "combo_sizing cfg lut_opt spread rs =
     (case lut_opt of
        None \<Rightarrow> Skipped SizeZero
      | Some l \<Rightarrow>
          let r = (sell_base_decimal rs * buy_trade_decimal rs)
                    / (buy_base_decimal rs * sell_trade_decimal rs)
          in (case call_size_from_lut l [spread, r] of
                Inl e \<Rightarrow> Caught e
              | Inr g_optimal \<Rightarrow>
                  let optimal_size =
                        (if g_optimal > 0
                         then (min (buy_liquidity_usd cfg rs) (sell_liquidity_usd cfg rs)
                                 / combo_base_price_usd cfg rs) * g_optimal
                         else 0)
                  in if optimal_size > 0 then Caught TypeError else Skipped SizeZero))"


subsection \<open>find\_optimal\_trade\_size: from the fetched reserves to the result\<close>

text \<open>
  The part of \<open>find_optimal_trade_size\<close> that follows the fetch of the two reserves
  (with its factory and RPC fallbacks, which are network calls), on the branch where the
  ANKR provider exists.  An exception is \<open>None\<close>: nothing in the function catches it.
  The function returns \<open>(optimal_size, expected_profit, price_impact, flipped)\<close>; its
  three-element returns \<open>0, 0, 0\<close> are read by the caller with \<open>flipped = False\<close> and
  are modelled so.
\<close>

definition token_is :: "string option \<Rightarrow> string \<Rightarrow> bool option" where
  \<comment> \<open>\<open>reserves.get('token0', '').lower() == base_token.lower()\<close>; the key is always
      present, so a stored \<open>None\<close> is an AttributeError\<close>
  "token_is tok base_token = (case tok of None \<Rightarrow> None | Some t \<Rightarrow> Some (lower t = lower base_token))"

definition get_token_decimals :: "(string \<rightharpoonup> nat) \<Rightarrow> string option \<Rightarrow> nat option" where
  \<comment> \<open>the first argument gives the decimals of every address that
      \<open>Web3.to_checksum_address\<close> accepts (from the table, the chain, or the default 18);
      \<open>None\<close> is the exception of \<open>to_checksum_address\<close> on anything else\<close>
  "get_token_decimals dec tok = (case tok of None \<Rightarrow> None | Some t \<Rightarrow> dec t)"

definition calculate_mid_price_from_reserves :: "int \<Rightarrow> int \<Rightarrow> nat \<Rightarrow> nat \<Rightarrow> bool \<Rightarrow> real" where
  "calculate_mid_price_from_reserves r0 r1 token0_decimals token1_decimals base_is_token0 =
     (if r0 = 0 \<or> r1 = 0 then 0
      else
        let reserve0_normalized = real_of_int r0 / 10 ^ token0_decimals;
            reserve1_normalized = real_of_int r1 / 10 ^ token1_decimals
        in if base_is_token0
           then (if reserve1_normalized = 0 then 0 else reserve0_normalized / reserve1_normalized)
           else (if reserve0_normalized = 0 then 0 else reserve1_normalized / reserve0_normalized))"

definition liquidity_base_price_usd :: "evaluator_config \<Rightarrow> string \<Rightarrow> real" where
  \<comment> \<open>the price that \<open>calculate_liquidity_usd\<close> uses: the configured one, or a fixed
      estimate by symbol when none (or 0) is configured\<close>
  "liquidity_base_price_usd cfg base_token_address =
     (let base_price_usd = dict_get_default (BASE_TOKEN_USD_PRICES cfg) (lower base_token_address) 0
      in if base_price_usd = 0 then
           (let token_symbol = dict_get_default (base_tokens cfg) (lower base_token_address) ''''
            in if token_symbol \<in> set [''USDC'', ''USDC.e'', ''USDT'', ''DAI''] then 1
               else if token_symbol = ''WETH'' then 2500
               else if token_symbol = ''WBTC'' then 40000
               else if token_symbol = ''WMATIC'' then 0.9
               else if token_symbol = ''AAVE'' then 100
               else base_price_usd)
         else base_price_usd)"

definition calculate_liquidity_usd :: "evaluator_config \<Rightarrow> int \<Rightarrow> string \<Rightarrow> nat \<Rightarrow> real" where
  "calculate_liquidity_usd cfg reserve_base base_token_address base_decimals =
     (let reserve_normalized = real_of_int reserve_base / 10 ^ base_decimals
      in 2 * reserve_normalized * liquidity_base_price_usd cfg base_token_address)"

definition pair_price_onchain :: "(string \<rightharpoonup> nat) \<Rightarrow> string \<Rightarrow> reserves \<Rightarrow> real option" where
  "pair_price_onchain dec base_token rs = do {
     token0_is_base \<leftarrow> token_is (token0 rs) base_token;
     d0 \<leftarrow> get_token_decimals dec (token0 rs);
     d1 \<leftarrow> get_token_decimals dec (token1 rs);
     Some (calculate_mid_price_from_reserves (reserve0 rs) (reserve1 rs) d0 d1 token0_is_base)
   }"

record onchain_state =
  st_spread :: real
  st_buy_reserves :: reserves
  st_sell_reserves :: reserves
  st_flipped :: "bool option"
  st_buy_price :: real
  st_sell_price :: real

datatype 'a step = Return "real \<times> real \<times> real \<times> bool" | Next 'a

definition direction_fix ::
  "real \<Rightarrow> real \<Rightarrow> reserves \<Rightarrow> reserves \<Rightarrow> real \<times> real \<times> reserves \<times> reserves \<times> bool" where
  \<comment> \<open>\<open>if sell_price_onchain <= buy_price_onchain:\<close> swap the prices and the reserves,
      \<open>flipped = True\<close>; \<open>else: flipped = False\<close>\<close>
  "direction_fix buy_price_onchain sell_price_onchain buy_reserves sell_reserves =
     (if sell_price_onchain \<le> buy_price_onchain
      then (sell_price_onchain, buy_price_onchain, sell_reserves, buy_reserves, True)
      else (buy_price_onchain, sell_price_onchain, buy_reserves, sell_reserves, False))"

definition buy_side_liquidity_usd ::
  "evaluator_config \<Rightarrow> (string \<rightharpoonup> nat) \<Rightarrow> string \<Rightarrow> reserves \<Rightarrow> real option" where
  \<comment> \<open>the USD liquidity that the filter computes from the (possibly swapped) buy reserves\<close>
  "buy_side_liquidity_usd cfg dec base_token buy_reserves = do {
     token0_is_base \<leftarrow> token_is (token0 buy_reserves) base_token;
     let base_reserve_raw = (if token0_is_base then reserve0 buy_reserves else reserve1 buy_reserves);
     base_decimals \<leftarrow> get_token_decimals dec (Some base_token);
     Some (calculate_liquidity_usd cfg base_reserve_raw base_token base_decimals)
   }"

definition onchain_filter ::
  "evaluator_config \<Rightarrow> (string \<rightharpoonup> nat) \<Rightarrow> string \<Rightarrow> real \<Rightarrow> real \<Rightarrow> real \<Rightarrow>
     reserves \<Rightarrow> reserves \<Rightarrow> onchain_state step option" where
  \<comment> \<open>\<open>spread\<close>, \<open>buy_price\<close>, \<open>sell_price\<close> are the values computed from the candidate
      before the reserves were read; they stay when an on-chain price is 0\<close>
  "onchain_filter cfg dec base_token spread buy_price sell_price buy_reserves sell_reserves = do {
     buy_price_onchain \<leftarrow> pair_price_onchain dec base_token buy_reserves;
     sell_price_onchain \<leftarrow> pair_price_onchain dec base_token sell_reserves;
     if buy_price_onchain > 0 \<and> sell_price_onchain > 0 then
       (case direction_fix buy_price_onchain sell_price_onchain buy_reserves sell_reserves of
          (bp, sp, br, sr, flipped) \<Rightarrow>
            let spread_onchain = (sp - bp) / bp * 100
            in if spread_onchain < MIN_SPREAD_PERCENT cfg then Some (Return (0, 0, 0, False))
               else do {
                 liquidity_usd \<leftarrow> buy_side_liquidity_usd cfg dec base_token br;
                 if liquidity_usd < MIN_LIQUIDITY_USD cfg then Some (Return (0, 0, 0, False))
                 else Some (Next \<lparr>st_spread = spread_onchain / 100, st_buy_reserves = br,
                                   st_sell_reserves = sr, st_flipped = Some flipped,
                                   st_buy_price = bp, st_sell_price = sp\<rparr>)
               })
     else Some (Next \<lparr>st_spread = spread, st_buy_reserves = buy_reserves,
                       st_sell_reserves = sell_reserves, st_flipped = None,
                       st_buy_price = buy_price, st_sell_price = sell_price\<rparr>)
   }"

definition base_reserve_units ::
  "string \<Rightarrow> nat \<Rightarrow> reserves \<Rightarrow> (string \<times> string) option \<Rightarrow> real step" where
  \<comment> \<open>\<open>b1\<close> (or \<open>b2\<close>): the base reserve in token units, by the \<open>token0()\<close>/\<open>token1()\<close> that
      the pair contract at the candidate's pair address reports; \<open>None\<close> for the tokens
      is a failed contract call, caught by the \<open>try\<close> around it\<close>
  "base_reserve_units base_token base_decimals rs pair_tokens =
     (case pair_tokens of
        None \<Rightarrow> Return (0, 0, 0, False)
      | Some (t0, t1) \<Rightarrow>
          if lower t0 = lower base_token then Next (real_of_int (reserve0 rs) / 10 ^ base_decimals)
          else if lower t1 = lower base_token then Next (real_of_int (reserve1 rs) / 10 ^ base_decimals)
          else Return (0, 0, 0, False))"

definition MIN_RESERVE_USD :: real where
  "MIN_RESERVE_USD = 500"

definition size_step ::
  "evaluator_config \<Rightarrow> lut \<Rightarrow> real \<Rightarrow> string \<Rightarrow> real \<Rightarrow> real \<Rightarrow> real \<Rightarrow> bool option \<Rightarrow>
     (real \<times> real \<times> real \<times> bool) option" where
  \<comment> \<open>from \<open>if b1 <= 0 or b2 <= 0\<close> to the final \<open>return\<close>; \<open>total_fees\<close> is
      \<open>get_dex_fee(buy_dex) + get_dex_fee(sell_dex) + get_flash_loan_fee()\<close>.
      \<open>None\<close>: ZeroDivisionError of a configured price 0, or IndexError of the lookup.\<close>
  "size_step cfg l total_fees base_token spread b1 b2 flipped =
     (if b1 \<le> 0 \<or> b2 \<le> 0 then Some (0, 0, 0, False)
      else
        let base_price_usd = dict_get_default (BASE_TOKEN_USD_PRICES cfg) (lower base_token) 1
        in if base_price_usd = 0 then None
           else
             let min_reserve_units = MIN_RESERVE_USD / base_price_usd
             in if b1 < min_reserve_units \<or> b2 < min_reserve_units then Some (0, 0, 0, False)
                else do {
                  optimal_size \<leftarrow> size_from_lut l spread b1 b2;
                  let net_spread = spread * 100 - total_fees;
                  let flipped_flag = (case flipped of Some f \<Rightarrow> f | None \<Rightarrow> False);
                  Some (if net_spread \<le> 0 then (optimal_size, 0, 0, flipped_flag)
                        else (optimal_size, optimal_size * (net_spread / 100) * base_price_usd, 5,
                              flipped_flag))
                })"

definition find_optimal_trade_size_tail ::
  "evaluator_config \<Rightarrow> (string \<rightharpoonup> nat) \<Rightarrow> lut \<Rightarrow> real \<Rightarrow> string \<Rightarrow> real \<Rightarrow> real \<Rightarrow> real \<Rightarrow>
     reserves \<Rightarrow> reserves \<Rightarrow> (string \<times> string) option \<Rightarrow> (string \<times> string) option \<Rightarrow>
     (real \<times> real \<times> real \<times> bool) option" where
  "find_optimal_trade_size_tail cfg dec l total_fees base_token spread buy_price sell_price
       buy_reserves sell_reserves buy_pair_tokens sell_pair_tokens = do {
     filtered \<leftarrow> onchain_filter cfg dec base_token spread buy_price sell_price buy_reserves sell_reserves;
     (case filtered of
        Return t \<Rightarrow> Some t
      | Next st \<Rightarrow> do {
          base_decimals \<leftarrow> get_token_decimals dec (Some base_token);
          (case base_reserve_units base_token base_decimals (st_buy_reserves st) buy_pair_tokens of
             Return t \<Rightarrow> Some t
           | Next b1 \<Rightarrow>
               (case base_reserve_units base_token base_decimals (st_sell_reserves st) sell_pair_tokens of
                  Return t \<Rightarrow> Some t
                | Next b2 \<Rightarrow> size_step cfg l total_fees base_token (st_spread st) b1 b2 (st_flipped st)))
        })
   }"

definition caller_drops :: "real \<times> real \<times> real \<times> bool \<Rightarrow> bool" where
  \<comment> \<open>\<open>find_arbitrage_opportunities\<close> after the call: \<open>continue\<close> on \<open>(0, 0, 0)\<close> and on
      \<open>optimal_size <= 0\<close> (counter \<open>n_nets0\<close>)\<close>
  "caller_drops t =
     (case t of (optimal_size, expected_profit, price_impact, flipped) \<Rightarrow>
        (optimal_size = 0 \<and> expected_profit = 0 \<and> price_impact = 0) \<or> optimal_size \<le> 0)"

section \<open>Example data\<close>

text \<open>The grid of the spec's scenario 5, and the grid of an empty JSON document.\<close>

definition lut_example :: lut where
  "lut_example = \<lparr>s_grid = [0.001, 0.01], r_grid = [0.5, 1.0, 2.0],
     g = [[0.0, 0.0, 0.0], [0.1, 0.2, 0.1]]\<rparr>"



definition zero_reserves_data :: string where
  \<comment> \<open>the \<open>getReserves()\<close> return data of a pool whose reserves are both zero\<close>
  "zero_reserves_data = ''0x'' @ replicate 192 (CHR ''0'')"

definition net_zero_reserves :: network where
  "net_zero_reserves = (\<lambda>path batch. Response (RespList (map (\<lambda>p. Result (Some zero_reserves_data)) batch)))"

definition sample_reserves_data :: string where
  \<comment> \<open>reserve0 = 0x1f4 = 500, reserve1 = 0x3e8 = 1000, timestamp 0\<close>
  "sample_reserves_data =
     ''0x'' @ replicate 61 (CHR ''0'') @ ''1f4'' @ replicate 61 (CHR ''0'') @ ''3e8'' @ replicate 64 (CHR ''0'')"

definition net_sample :: network where
  "net_sample = (\<lambda>path batch. Response (RespList (map (\<lambda>p. Result (Some sample_reserves_data)) batch)))"

definition net_failing :: network where
  \<comment> \<open>every batch is answered with an error object\<close>
  "net_failing = (\<lambda>path batch. Response RespErrorDict)"


text \<open>
  The two pools of the specification's scenario 1 (USDC with 6 decimals against a token
  with 18), a third pool with a small base reserve, and the shipped thresholds.
\<close>

definition usdc :: string where
  "usdc = ''0x2791bca1f2de4661ed88a30c99a7a9449aa84174''"

definition weth :: string where
  "weth = ''0x7ceb23fd6bc0add59e62ac25578270cff1b9f619''"

definition cfg_example :: evaluator_config where
  "cfg_example = \<lparr>MIN_SPREAD_PERCENT = 0.75, MIN_LIQUIDITY_USD = 500,
     BASE_TOKEN_USD_PRICES = [usdc \<mapsto> 1], base_tokens = [usdc \<mapsto> ''USDC'']\<rparr>"

definition decimals_example :: "string \<rightharpoonup> nat" where
  "decimals_example = [usdc \<mapsto> 6, weth \<mapsto> 18]"

definition pool_cheap :: reserves where
  "pool_cheap = \<lparr>reserve0 = 1000000 * 10 ^ 6, reserve1 = 500 * 10 ^ 18,
     token0 = Some usdc, token1 = Some weth\<rparr>"

definition pool_dear :: reserves where
  "pool_dear = \<lparr>reserve0 = 1010000 * 10 ^ 6, reserve1 = 500 * 10 ^ 18,
     token0 = Some usdc, token1 = Some weth\<rparr>"












section \<open>Properties of the sizing oracle\<close>

lemma bisect_right_loop_stop: "\<not> lo < hi \<Longrightarrow> bisect_right_loop a x lo hi = lo"
  by (subst bisect_right_loop.simps) simp

lemma bisect_right_loop_down:
  "lo < hi \<Longrightarrow> x < a ! ((lo + hi) div 2) \<Longrightarrow>
     bisect_right_loop a x lo hi = bisect_right_loop a x lo ((lo + hi) div 2)"
  by (subst bisect_right_loop.simps) (simp add: Let_def)

lemma bisect_right_loop_up:
  "lo < hi \<Longrightarrow> \<not> x < a ! ((lo + hi) div 2) \<Longrightarrow>
     bisect_right_loop a x lo hi = bisect_right_loop a x ((lo + hi) div 2 + 1) hi"
  by (subst bisect_right_loop.simps) (simp add: Let_def)

lemma bisect_right_loop_bounds:
  "lo \<le> hi \<Longrightarrow>
     lo \<le> bisect_right_loop a x lo hi \<and> bisect_right_loop a x lo hi \<le> hi \<and>
     (bisect_right_loop a x lo hi = lo \<or> a ! (bisect_right_loop a x lo hi - 1) \<le> x) \<and>
     (bisect_right_loop a x lo hi = hi \<or> x < a ! bisect_right_loop a x lo hi)"
proof (induction a x lo hi rule: bisect_right_loop.induct)
  case (1 a x lo hi)
  show ?case
  proof (cases "lo < hi")
    case False
    with "1.prems" show ?thesis by (simp add: bisect_right_loop_stop)
  next
    case True
    let ?mid = "(lo + hi) div 2"
    have m: "lo \<le> ?mid" "?mid < hi" using True by simp_all
    show ?thesis
    proof (cases "x < a ! ?mid")
      case lt: True
      have ih: "lo \<le> bisect_right_loop a x lo ?mid \<and> bisect_right_loop a x lo ?mid \<le> ?mid \<and>
         (bisect_right_loop a x lo ?mid = lo \<or> a ! (bisect_right_loop a x lo ?mid - 1) \<le> x) \<and>
         (bisect_right_loop a x lo ?mid = ?mid \<or> x < a ! bisect_right_loop a x lo ?mid)"
        using "1.IH"(1) [OF True refl lt] m by simp
      show ?thesis unfolding bisect_right_loop_down [OF True lt] using ih lt m by auto
    next
      case ge: False
      have ih: "?mid + 1 \<le> bisect_right_loop a x (?mid + 1) hi \<and> bisect_right_loop a x (?mid + 1) hi \<le> hi \<and>
         (bisect_right_loop a x (?mid + 1) hi = ?mid + 1 \<or> a ! (bisect_right_loop a x (?mid + 1) hi - 1) \<le> x) \<and>
         (bisect_right_loop a x (?mid + 1) hi = hi \<or> x < a ! bisect_right_loop a x (?mid + 1) hi)"
        using "1.IH"(2) [OF True refl ge] m by simp
      define r where "r = bisect_right_loop a x (?mid + 1) hi"
      have r1: "?mid + 1 \<le> r" "r \<le> hi" "r = ?mid + 1 \<or> a ! (r - 1) \<le> x" "r = hi \<or> x < a ! r"
        using ih by (simp_all add: r_def)
      have "a ! (r - 1) \<le> x"
      proof (cases "r = ?mid + 1")
        case True
        then show ?thesis using ge by simp
      next
        case False
        then show ?thesis using r1(3) by simp
      qed
      moreover have "lo \<le> r" using r1(1) m by simp
      ultimately show ?thesis
        unfolding bisect_right_loop_up [OF True ge] r_def [symmetric] using r1 by blast
    qed
  qed
qed

lemma bisect_right_inner:
  assumes "a \<noteq> []" "a ! 0 < x" "x < a ! (length a - 1)"
  shows "1 \<le> bisect_right a x \<and> bisect_right a x + 1 \<le> length a"
proof -
  let ?r = "bisect_right_loop a x 0 (length a)"
  have b: "?r \<le> length a" "?r = 0 \<or> a ! (?r - 1) \<le> x" "?r = length a \<or> x < a ! ?r"
    using bisect_right_loop_bounds [of 0 "length a" a x] by simp_all
  have r0: "?r \<noteq> 0"
  proof
    assume z: "?r = 0"
    then have "x < a ! 0" using b(3) assms(1) by auto
    then show False using assms(2) by simp
  qed
  moreover have "?r \<noteq> length a"
  proof
    assume z: "?r = length a"
    then have "a ! (length a - 1) \<le> x" using b(2) r0 by auto
    then show False using assms(3) by simp
  qed
  ultimately show ?thesis using b(1) by (simp add: bisect_right_def)
qed

lemma py_index_nat: "i < length xs \<Longrightarrow> py_index xs (int i) = Some (xs ! i)"
  by (simp add: py_index_def)

lemma py_index_first: "xs \<noteq> [] \<Longrightarrow> py_index xs 0 = Some (xs ! 0)"
  by (simp add: py_index_def)

lemma py_index_last: "xs \<noteq> [] \<Longrightarrow> py_index xs (- 1) = Some (xs ! (length xs - 1))"
  by (cases xs rule: rev_cases) (simp_all add: py_index_def nat_diff_distrib')

lemma interp1_total:
  assumes "xg \<noteq> []" "length yg = length xg"
  shows "\<exists>v. interp1 xg yg x = Some v"
proof -
  have yne: "yg \<noteq> []" using assms by auto
  show ?thesis
  proof (cases "x \<le> xg ! 0")
    case True
    then show ?thesis using assms yne by (simp add: interp1_def py_index_first)
  next
    case lo: False
    show ?thesis
    proof (cases "xg ! (length xg - 1) \<le> x")
      case True
      then show ?thesis using assms yne lo by (simp add: interp1_def py_index_first py_index_last)
    next
      case hi: False
      obtain k where k: "bisect_right xg x = Suc k" "Suc k < length xg"
        using bisect_right_inner [of xg x] assms lo hi by (cases "bisect_right xg x") auto
      have idx: "int (Suc k) - 1 = int k" "int k + 1 = int (Suc k)" by simp_all
      show ?thesis using assms yne lo hi k
        by (simp add: interp1_def py_index_first py_index_last idx py_index_nat del: of_nat_Suc)
    qed
  qed
qed

lemma filter_le_count:
  fixes xs :: "real list"
  assumes "sorted xs" "r \<le> length xs" "r = 0 \<or> xs ! (r - 1) \<le> x" "r = length xs \<or> x < xs ! r"
  shows "length (filter (\<lambda>y. y \<le> x) xs) = r"
proof -
  have a: "filter (\<lambda>y. y \<le> x) (take r xs) = take r xs"
  proof (rule filter_True, clarify)
    fix y assume "y \<in> set (take r xs)"
    then obtain i where i: "i < r" "y = xs ! i"
      using assms(2) by (auto simp add: in_set_conv_nth)
    then have "xs ! i \<le> xs ! (r - 1)" using assms(1,2) by (intro sorted_nth_mono) auto
    moreover have "xs ! (r - 1) \<le> x" using assms(3) i by auto
    ultimately show "y \<le> x" using i by simp
  qed
  have b: "filter (\<lambda>y. y \<le> x) (drop r xs) = []"
  proof (rule filter_False, clarify)
    fix y assume "y \<in> set (drop r xs)" "y \<le> x"
    then obtain i where "i < length xs - r" "y = xs ! (r + i)"
      by (auto simp add: in_set_conv_nth)
    then have i: "r + i < length xs" "y = xs ! (r + i)" by simp_all
    then have "xs ! r \<le> xs ! (r + i)" using assms(1) by (intro sorted_nth_mono) auto
    moreover have "x < xs ! r" using assms(4) i by auto
    ultimately show False using i \<open>y \<le> x\<close> by simp
  qed
  have "filter (\<lambda>y. y \<le> x) xs = filter (\<lambda>y. y \<le> x) (take r xs @ drop r xs)" by simp
  also have "\<dots> = take r xs" unfolding filter_append a b by simp
  finally show ?thesis using assms(2) by simp
qed

lemma bisect_right_count:
  assumes "sorted a"
  shows "bisect_right a x = length (filter (\<lambda>y. y \<le> x) a)"
  using filter_le_count [OF assms, of "bisect_right a x" x]
    bisect_right_loop_bounds [of 0 "length a" a x]
  by (simp add: bisect_right_def)

lemma hd_nth0: "xs \<noteq> [] \<Longrightarrow> hd xs = xs ! 0"
  by (simp add: hd_conv_nth)

lemma last_nth: "xs \<noteq> [] \<Longrightarrow> last xs = xs ! (length xs - 1)"
  by (simp add: last_conv_nth)

lemma interp1_linear_spec:
  assumes ne: "xg \<noteq> []" and len: "length yg = length xg" and so: "sorted_wrt (<) xg"
  shows "interp1 xg yg x = Some (linear_spec xg yg x)"
proof -
  have yne: "yg \<noteq> []" using ne len by auto
  have srt: "sorted xg" using so by (rule strict_sorted_imp_sorted)
  let ?n = "length xg"
  have n1: "1 \<le> ?n" using ne by (simp add: Suc_leI)
  have lohi: "xg ! 0 \<le> xg ! (?n - 1)" using srt ne by (intro sorted_nth_mono) auto
  show ?thesis
  proof (cases "x \<le> xg ! 0")
    case True
    have cl: "clamp (hd xg) (last xg) x = xg ! 0"
      using True lohi ne by (simp add: clamp_def hd_nth0 last_nth)
    have "?n = 1 \<or> xg ! 0 < xg ! 1"
    proof (cases "?n = 1")
      case False
      then have "1 < ?n" using n1 by simp
      then show ?thesis using sorted_wrt_nth_less [OF so, of 0 1] by simp
    qed simp
    then have cnt: "length (filter (\<lambda>y. y \<le> xg ! 0) xg) = 1"
      using filter_le_count [OF srt, of 1 "xg ! 0"] n1 by auto
    have c: "cell_of xg (xg ! 0) = 0" using cnt by (simp add: cell_of_def)
    have v: "frac_in_cell xg 0 (xg ! 0) = 0" by (simp add: frac_in_cell_def)
    have sp: "linear_spec xg yg x = yg ! 0"
      unfolding linear_spec_def cl Let_def c v by simp
    show ?thesis unfolding sp using True ne yne
      by (simp add: interp1_def py_index_first)
  next
    case lo: False
    show ?thesis
    proof (cases "xg ! (?n - 1) \<le> x")
      case True
      have cl: "clamp (hd xg) (last xg) x = xg ! (?n - 1)"
        using True lohi ne by (simp add: clamp_def hd_nth0 last_nth)
      have cnt: "length (filter (\<lambda>y. y \<le> xg ! (?n - 1)) xg) = ?n"
        using filter_le_count [OF srt, of ?n "xg ! (?n - 1)"] by auto
      show ?thesis
      proof (cases "?n = 1")
        case one: True
        have c: "cell_of xg (xg ! 0) = 0" using cnt one by (simp add: cell_of_def)
        have v: "frac_in_cell xg 0 (xg ! 0) = 0" by (simp add: frac_in_cell_def one)
        have nx: "next_node xg 0 = 0" by (simp add: next_node_def one)
        have cl0: "clamp (hd xg) (last xg) x = xg ! 0" using cl one by simp
        have sp: "linear_spec xg yg x = yg ! 0"
          unfolding linear_spec_def cl0 Let_def c v nx by simp
        show ?thesis unfolding sp using True lo ne yne len one
          by (simp add: interp1_def py_index_first py_index_last)
      next
        case False
        then have n2: "2 \<le> ?n" using n1 by simp
        have c: "cell_of xg (xg ! (?n - 1)) = ?n - 2" using cnt by (simp add: cell_of_def)
        have s: "Suc (?n - 2) = ?n - 1" using n2 by simp
        have lt: "xg ! (?n - 2) < xg ! (?n - 1)"
          using n2 sorted_wrt_nth_less [OF so, of "?n - 2" "?n - 1"] by simp
        have v: "frac_in_cell xg (?n - 2) (xg ! (?n - 1)) = 1"
          using n2 lt by (simp add: frac_in_cell_def s)
        have nx: "next_node xg (?n - 2) = ?n - 1" using n2 by (simp add: next_node_def s)
        have sp: "linear_spec xg yg x = yg ! (?n - 1)"
          unfolding linear_spec_def cl Let_def c v nx by simp
        show ?thesis unfolding sp using True lo ne yne len
          by (simp add: interp1_def py_index_first py_index_last)
      qed
    next
      case hi: False
      have cl: "clamp (hd xg) (last xg) x = x"
        using lo hi ne by (simp add: clamp_def hd_nth0 last_nth)
      obtain k where k: "bisect_right xg x = Suc k" "Suc k < ?n"
        using bisect_right_inner [of xg x] ne lo hi by (cases "bisect_right xg x") auto
      have cnt: "length (filter (\<lambda>y. y \<le> x) xg) = Suc k"
        using bisect_right_count [OF srt, of x] k by simp
      have c: "cell_of xg x = k" using k cnt by (simp add: cell_of_def)
      have lt: "xg ! k < xg ! Suc k"
        using so k sorted_wrt_nth_less [of "(<)" xg k "Suc k"] by auto
      have v: "frac_in_cell xg k x = (x - xg ! k) / (xg ! Suc k - xg ! k)"
        using k by (simp add: frac_in_cell_def)
      have nx: "next_node xg k = Suc k" using k by (simp add: next_node_def)
      have idx: "int (Suc k) - 1 = int k" "int k + 1 = int (Suc k)" by simp_all
      have i1: "interp1 xg yg x = Some (yg ! k + (x - xg ! k) / (xg ! Suc k - xg ! k) * (yg ! Suc k - yg ! k))"
        using ne yne lo hi k len lt
        by (simp add: interp1_def py_index_first py_index_last idx py_index_nat del: of_nat_Suc)
      have sp: "linear_spec xg yg x =
          (1 - (x - xg ! k) / (xg ! Suc k - xg ! k)) * yg ! k + (x - xg ! k) / (xg ! Suc k - xg ! k) * yg ! Suc k"
        unfolding linear_spec_def cl Let_def c v nx by simp
      have alg: "\<And>t a b :: real. a + t * (b - a) = (1 - t) * a + t * b" by (simp add: algebra_simps)
      show ?thesis unfolding i1 sp by (simp only: alg)
    qed
  qed
qed



lemma interp2_as_interp1:
  assumes sne: "sg \<noteq> []" and rne: "rg \<noteq> []" and lenG: "length G = length sg"
    and rows: "\<And>i. i < length G \<Longrightarrow> length (G ! i) = length rg"
  shows "interp2 sg rg G s r = interp1 sg (map (\<lambda>row. the (interp1 rg row r)) G) s"
proof -
  define col where "col = map (\<lambda>row. the (interp1 rg row r)) G"
  have lc: "length col = length sg" using lenG by (simp add: col_def)
  have cne: "col \<noteq> []" using lc sne by auto
  have Gne: "G \<noteq> []" using lenG sne by auto
  have ci: "interp1 rg (G ! i) r = Some (col ! i)" if "i < length sg" for i
  proof -
    have iG: "i < length G" using that lenG by simp
    obtain v where "interp1 rg (G ! i) r = Some v"
      using interp1_total [OF rne rows [OF iG], of r] by blast
    then show ?thesis using that lenG by (simp add: col_def)
  qed
  let ?n = "length sg"
  have n0: "0 < ?n" using sne by simp
  show ?thesis unfolding col_def [symmetric]
  proof (cases "s \<le> sg ! 0")
    case True
    have c: "interp2_cell sg s = Some (0, 0, 0)"
      using True sne by (simp add: interp2_cell_def py_index_first)
    have "interp2 sg rg G s r = Some (col ! 0)"
      using Gne ci [OF n0] by (simp add: interp2_def c py_index_first)
    moreover have "interp1 sg col s = Some (col ! 0)"
      using True sne cne by (simp add: interp1_def py_index_first)
    ultimately show "interp2 sg rg G s r = interp1 sg col s" by simp
  next
    case lo: False
    show "interp2 sg rg G s r = interp1 sg col s"
    proof (cases "sg ! (?n - 1) \<le> s")
      case True
      define m where "m = ?n - 1"
      have m: "m < ?n" "int ?n - 1 = int m" using n0 by (simp_all add: m_def of_nat_diff Suc_leI)
      have c: "interp2_cell sg s = Some (int m, int m, 0)"
        using True lo sne by (simp add: interp2_cell_def py_index_first py_index_last m(2) m_def [symmetric])
      have "interp2 sg rg G s r = Some (col ! m)"
        using ci [OF m(1)] m(1) lenG by (simp add: interp2_def c py_index_nat)
      moreover have "interp1 sg col s = Some (col ! m)"
        using True lo sne cne lc by (simp add: interp1_def py_index_first py_index_last m_def)
      ultimately show ?thesis by simp
    next
      case hi: False
      obtain k where k: "bisect_right sg s = Suc k" "Suc k < ?n"
        using bisect_right_inner [of sg s] sne lo hi by (cases "bisect_right sg s") auto
      have k': "k < ?n" using k by simp
      have idx: "int (Suc k) - 1 = int k" "int k + 1 = int (Suc k)" by simp_all
      define t where "t = (if sg ! Suc k \<noteq> sg ! k then (s - sg ! k) / (sg ! Suc k - sg ! k) else 0)"
      have c: "interp2_cell sg s = Some (int k, int (Suc k), t)"
        using sne lo hi k
        by (simp add: interp2_cell_def py_index_first py_index_last idx py_index_nat Let_def t_def del: of_nat_Suc)
      have "interp2 sg rg G s r = Some (col ! k + t * (col ! Suc k - col ! k))"
        using ci [OF k'] ci [OF k(2)] k lenG by (simp add: interp2_def c py_index_nat del: of_nat_Suc)
      moreover have "interp1 sg col s = Some (col ! k + t * (col ! Suc k - col ! k))"
        using sne cne lo hi k lc
        by (simp add: interp1_def py_index_first py_index_last idx py_index_nat Let_def t_def del: of_nat_Suc)
      ultimately show ?thesis by simp
    qed
  qed
qed

lemma cell_of_less: "xs \<noteq> [] \<Longrightarrow> cell_of xs x < length xs"
  by (cases xs) (auto simp add: cell_of_def min_def)

lemma next_node_less: "xs \<noteq> [] \<Longrightarrow> next_node xs i < length xs"
  by (cases xs) (auto simp add: next_node_def min_def)

lemma interp2_bilinear_spec:
  assumes "lut_wf l"
  shows "interp2 (s_grid l) (r_grid l) (g l) s r = Some (bilinear_spec (s_grid l) (r_grid l) (g l) s r)"
proof -
  let ?sg = "s_grid l" and ?rg = "r_grid l" and ?G = "g l"
  from assms have sne: "?sg \<noteq> []" and rne: "?rg \<noteq> []" and lenG: "length ?G = length ?sg"
    and rows: "\<And>i. i < length ?G \<Longrightarrow> length (?G ! i) = length ?rg"
    and ss: "sorted_wrt (<) ?sg" and sr: "sorted_wrt (<) ?rg"
    by (simp_all add: lut_wf_def lut_shape_ok_def list_all_length)
  define col where "col = map (\<lambda>row. the (interp1 ?rg row r)) ?G"
  have lc: "length col = length ?sg" using lenG by (simp add: col_def)
  have ci: "col ! i = linear_spec ?rg (?G ! i) r" if "i < length ?sg" for i
  proof -
    have iG: "i < length ?G" using that lenG by simp
    show ?thesis using iG interp1_linear_spec [OF rne rows [OF iG] sr, of r] by (simp add: col_def)
  qed
  have "interp2 ?sg ?rg ?G s r = interp1 ?sg col s"
    unfolding col_def by (rule interp2_as_interp1 [OF sne rne lenG rows]) simp
  also have "\<dots> = Some (linear_spec ?sg col s)"
    by (rule interp1_linear_spec [OF sne lc ss])
  also have "linear_spec ?sg col s = bilinear_spec ?sg ?rg ?G s r"
  proof -
    define i where "i = cell_of ?sg (clamp (hd ?sg) (last ?sg) s)"
    have i1: "i < length ?sg" unfolding i_def by (rule cell_of_less [OF sne])
    have i2: "next_node ?sg i < length ?sg" by (rule next_node_less [OF sne])
    show ?thesis
      unfolding linear_spec_def [of ?sg] bilinear_spec_def Let_def i_def [symmetric] ci [OF i1] ci [OF i2]
      unfolding linear_spec_def Let_def
      by (simp add: algebra_simps)
  qed
  finally show ?thesis .
qed

lemma interp1_low:
  assumes "xg \<noteq> []" "yg \<noteq> []" "x \<le> hd xg"
  shows "interp1 xg yg x = Some (hd yg)"
  using assms by (simp add: interp1_def py_index_first hd_nth0)

lemma interp1_high:
  assumes so: "sorted_wrt (<) xg" and ne: "xg \<noteq> []" and len: "length yg = length xg" and hi: "last xg \<le> x"
  shows "interp1 xg yg x = Some (last yg)"
proof -
  have yne: "yg \<noteq> []" using ne len by auto
  let ?n = "length xg"
  have hi': "xg ! (?n - 1) \<le> x" using hi ne by (simp add: last_nth)
  show ?thesis
  proof (cases "x \<le> xg ! 0")
    case True
    have "?n = 1"
    proof (rule ccontr)
      assume "?n \<noteq> 1"
      then have "1 < ?n" using ne by (cases xg) auto
      then have "xg ! 0 < xg ! (?n - 1)" using sorted_wrt_nth_less [OF so, of 0 "?n - 1"] by simp
      then show False using True hi' by simp
    qed
    then have "length yg = 1" using len by simp
    then have "last yg = hd yg" by (cases yg) auto
    then show ?thesis using interp1_low [OF ne yne, of x] True ne by (simp add: hd_nth0)
  next
    case False
    then show ?thesis using hi' ne yne len
      by (simp add: interp1_def py_index_first py_index_last last_nth)
  qed
qed

lemma interp2_boundaries:
  assumes wf: "lut_wf l"
  shows "(s \<le> hd (s_grid l) \<longrightarrow>
            interp2 (s_grid l) (r_grid l) (g l) s r = interp1 (r_grid l) (hd (g l)) r) \<and>
         (last (s_grid l) \<le> s \<longrightarrow>
            interp2 (s_grid l) (r_grid l) (g l) s r = interp1 (r_grid l) (last (g l)) r) \<and>
         (r \<le> hd (r_grid l) \<longrightarrow>
            interp2 (s_grid l) (r_grid l) (g l) s r = interp1 (s_grid l) (map hd (g l)) s) \<and>
         (last (r_grid l) \<le> r \<longrightarrow>
            interp2 (s_grid l) (r_grid l) (g l) s r = interp1 (s_grid l) (map last (g l)) s)"
proof -
  let ?sg = "s_grid l" and ?rg = "r_grid l" and ?G = "g l"
  from wf have sne: "?sg \<noteq> []" and rne: "?rg \<noteq> []" and lenG: "length ?G = length ?sg"
    and rows: "\<And>i. i < length ?G \<Longrightarrow> length (?G ! i) = length ?rg"
    and ss: "sorted_wrt (<) ?sg" and sr: "sorted_wrt (<) ?rg"
    by (simp_all add: lut_wf_def lut_shape_ok_def list_all_length)
  have Gne: "?G \<noteq> []" using lenG sne by auto
  have rowlen: "length row = length ?rg" if "row \<in> set ?G" for row
    using that rows by (auto simp add: in_set_conv_nth)
  define col where "col = map (\<lambda>row. the (interp1 ?rg row r)) ?G"
  have lc: "length col = length ?sg" and cne: "col \<noteq> []" using lenG Gne by (simp_all add: col_def)
  have eq: "interp2 ?sg ?rg ?G s r = interp1 ?sg col s"
    unfolding col_def by (rule interp2_as_interp1 [OF sne rne lenG rows]) simp
  have tot: "interp1 ?rg row r = Some (the (interp1 ?rg row r))" if "row \<in> set ?G" for row
    using interp1_total [OF rne rowlen [OF that], of r] by auto
  have a: "interp2 ?sg ?rg ?G s r = interp1 ?rg (hd ?G) r" if "s \<le> hd ?sg"
    using interp1_low [OF sne cne that] tot [of "hd ?G"] Gne
    by (simp add: eq col_def hd_map)
  have b: "interp2 ?sg ?rg ?G s r = interp1 ?rg (last ?G) r" if "last ?sg \<le> s"
    using interp1_high [OF ss sne lc that] tot [of "last ?G"] Gne
    by (simp add: eq col_def last_map)
  have c: "interp2 ?sg ?rg ?G s r = interp1 ?sg (map hd ?G) s" if "r \<le> hd ?rg"
  proof -
    have "col = map hd ?G" unfolding col_def
    proof (rule map_cong [OF refl])
      fix row assume "row \<in> set ?G"
      then have "length row = length ?rg" by (rule rowlen)
      then have "row \<noteq> []" using rne by auto
      then show "the (interp1 ?rg row r) = hd row" using interp1_low [OF rne _ that] by simp
    qed
    then show ?thesis using eq by simp
  qed
  have d: "interp2 ?sg ?rg ?G s r = interp1 ?sg (map last ?G) s" if "last ?rg \<le> r"
  proof -
    have "col = map last ?G" unfolding col_def
    proof (rule map_cong [OF refl])
      fix row assume "row \<in> set ?G"
      then show "the (interp1 ?rg row r) = last row"
        using interp1_high [OF sr rne rowlen that] by simp
    qed
    then show ?thesis using eq by simp
  qed
  show ?thesis using a b c d by blast
qed

lemma lut_example_wf: "lut_wf lut_example"
  by (simp add: lut_wf_def lut_shape_ok_def lut_example_def)

lemma bilinear_spec_example: "bilinear_spec (s_grid lut_example) (r_grid lut_example) (g lut_example) (11/2000) 1 = 1/10"
  by (simp add: bilinear_spec_def clamp_def cell_of_def frac_in_cell_def next_node_def lut_example_def Let_def)

text \<open>
  Claim C5.  On a grid with the invariants of the sizing-grid file (both axes strictly
  increasing, one row of \<open>g\<close> per \<open>s_grid\<close> node, every row as long as \<open>r_grid\<close>) and at
  least one node per axis, the lookup of the code is the bilinear interpolation of \<open>g\<close> with
  end-clamping on both axes as the specification words it (\<open>bilinear_spec\<close>); an \<open>s\<close> at or
  below the first \<open>s_grid\<close> node gives the interpolation over \<open>r\<close> of the first row, an \<open>s\<close>
  at or above the last node that of the last row, and likewise an \<open>r\<close> outside \<open>r_grid\<close> gives
  the interpolation over \<open>s\<close> of the first or last column; and for base reserves
  \<open>b1 > 0\<close> (buy side) and \<open>b2 \<ge> 0\<close> (sell side) the returned size is
  \<open>L \<cdot> max 0 g\<close> with \<open>L = min b1 b2\<close> and \<open>g\<close> interpolated at \<open>r = b2 / b1\<close>.
\<close>

theorem size_from_lut_bilinear:
  assumes "lut_wf l"
  shows "(0 < b1 \<and> 0 \<le> b2 \<longrightarrow>
            size_from_lut l s b1 b2 =
              Some (min b1 b2 * max 0 (bilinear_spec (s_grid l) (r_grid l) (g l) s (b2 / b1)))) \<and>
         interp2 (s_grid l) (r_grid l) (g l) s r = Some (bilinear_spec (s_grid l) (r_grid l) (g l) s r) \<and>
         (s \<le> hd (s_grid l) \<longrightarrow>
            interp2 (s_grid l) (r_grid l) (g l) s r = interp1 (r_grid l) (hd (g l)) r) \<and>
         (last (s_grid l) \<le> s \<longrightarrow>
            interp2 (s_grid l) (r_grid l) (g l) s r = interp1 (r_grid l) (last (g l)) r) \<and>
         (r \<le> hd (r_grid l) \<longrightarrow>
            interp2 (s_grid l) (r_grid l) (g l) s r = interp1 (s_grid l) (map hd (g l)) s) \<and>
         (last (r_grid l) \<le> r \<longrightarrow>
            interp2 (s_grid l) (r_grid l) (g l) s r = interp1 (s_grid l) (map last (g l)) s)"
proof -
  have sz: "size_from_lut l s b1 b2 =
      Some (min b1 b2 * max 0 (bilinear_spec (s_grid l) (r_grid l) (g l) s (b2 / b1)))"
    if "0 < b1" "0 \<le> b2"
  proof (cases "min b1 b2 \<le> 0")
    case True
    then have "min b1 b2 = 0" using that by (simp add: min_def split: if_splits)
    then show ?thesis by (simp add: size_from_lut_def)
  next
    case False
    then show ?thesis using that interp2_bilinear_spec [OF assms, of s "b2 / b1"]
      by (simp add: size_from_lut_def Let_def)
  qed
  show ?thesis
    using sz interp2_bilinear_spec [OF assms, of s r] interp2_boundaries [OF assms, of s r] by blast
qed

theorem size_from_lut_bilinear_witness:
  "lut_wf lut_example \<and>
   size_from_lut lut_example (11 / 2000) 100 100 = Some 10 \<and>
   interp2 (s_grid lut_example) (r_grid lut_example) (g lut_example) (1 / 2000) 1
     = interp1 (r_grid lut_example) (hd (g lut_example)) 1 \<and>
   interp2 (s_grid lut_example) (r_grid lut_example) (g lut_example) (1 / 50) 1
     = interp1 (r_grid lut_example) (last (g lut_example)) 1 \<and>
   interp2 (s_grid lut_example) (r_grid lut_example) (g lut_example) (11 / 2000) (1 / 4)
     = interp1 (s_grid lut_example) (map hd (g lut_example)) (11 / 2000) \<and>
   interp2 (s_grid lut_example) (r_grid lut_example) (g lut_example) (11 / 2000) 3
     = interp1 (s_grid lut_example) (map last (g lut_example)) (11 / 2000)"
proof -
  note t = size_from_lut_bilinear [OF lut_example_wf]
  have hs: "hd (s_grid lut_example) = 1 / 1000" "last (s_grid lut_example) = 1 / 100"
    "hd (r_grid lut_example) = 1 / 2" "last (r_grid lut_example) = 2"
    by (simp_all add: lut_example_def)
  have a: "size_from_lut lut_example (11 / 2000) 100 100 = Some 10"
    using t [where ?b1.0 = 100 and ?b2.0 = 100 and s = "11 / 2000" and r = 1] bilinear_spec_example
    by simp
  have b: "interp2 (s_grid lut_example) (r_grid lut_example) (g lut_example) (1 / 2000) 1
     = interp1 (r_grid lut_example) (hd (g lut_example)) 1"
  proof -
    have "(1 / 2000 :: real) \<le> hd (s_grid lut_example)" by (simp add: hs)
    then show ?thesis
      using t [where ?b1.0 = 100 and ?b2.0 = 100 and s = "1 / 2000" and r = 1] by blast
  qed
  have c: "interp2 (s_grid lut_example) (r_grid lut_example) (g lut_example) (1 / 50) 1
     = interp1 (r_grid lut_example) (last (g lut_example)) 1"
  proof -
    have "last (s_grid lut_example) \<le> (1 / 50 :: real)" by (simp add: hs)
    then show ?thesis
      using t [where ?b1.0 = 100 and ?b2.0 = 100 and s = "1 / 50" and r = 1] by blast
  qed
  have d: "interp2 (s_grid lut_example) (r_grid lut_example) (g lut_example) (11 / 2000) (1 / 4)
     = interp1 (s_grid lut_example) (map hd (g lut_example)) (11 / 2000)"
  proof -
    have "(1 / 4 :: real) \<le> hd (r_grid lut_example)" by (simp add: hs)
    then show ?thesis
      using t [where ?b1.0 = 100 and ?b2.0 = 100 and s = "11 / 2000" and r = "1 / 4"] by blast
  qed
  have e: "interp2 (s_grid lut_example) (r_grid lut_example) (g lut_example) (11 / 2000) 3
     = interp1 (s_grid lut_example) (map last (g lut_example)) (11 / 2000)"
  proof -
    have "last (r_grid lut_example) \<le> (3 :: real)" by (simp add: hs)
    then show ?thesis
      using t [where ?b1.0 = 100 and ?b2.0 = 100 and s = "11 / 2000" and r = 3] by blast
  qed
  show ?thesis using lut_example_wf a b c d e by blast
qed




section \<open>Properties of the AMM model\<close>

text \<open>
  Claim C8.  For \<open>x > 0\<close>, \<open>Rin > 0\<close>, \<open>Rout > 0\<close> and a fee fraction \<open>\<phi> \<le> 1\<close>
  (the code takes the fee in percent, \<open>100 \<cdot> \<phi>\<close>), the AMM model returns
  \<open>out = x(1 - \<phi>)Rout / (Rin + x(1 - \<phi>))\<close> and the price impact
  \<open>100 (Rout/Rin - out/x) / (Rout/Rin)\<close>.
\<close>

theorem calculate_price_impact_amm_formula:
  assumes "0 < x" "0 < Rin" "0 < Rout" "\<phi> \<le> 1"
  shows "calculate_price_impact_amm x Rin Rout (100 * \<phi>) =
           Some ((x * (1 - \<phi>) * Rout) / (Rin + x * (1 - \<phi>)),
                 100 * (Rout / Rin - ((x * (1 - \<phi>) * Rout) / (Rin + x * (1 - \<phi>))) / x) / (Rout / Rin))"
proof -
  have "0 \<le> x * (1 - \<phi>)" using assms by simp
  then have nz: "Rin + x * (1 - \<phi>) \<noteq> 0" using assms(2) by linarith
  show ?thesis using assms nz by (simp add: calculate_price_impact_amm_def Let_def mult_ac)
qed

theorem calculate_price_impact_amm_formula_witness:
  "(0::real) < 100 \<and> (0::real) < 1000 \<and> (0::real) < 2000 \<and> (3/1000::real) \<le> 1 \<and>
   calculate_price_impact_amm 100 1000 2000 (100 * (3/1000)) =
           Some ((100 * (1 - 3/1000) * 2000) / (1000 + 100 * (1 - 3/1000)),
                 100 * (2000 / 1000 - ((100 * (1 - 3/1000) * 2000) / (1000 + 100 * (1 - 3/1000))) / 100) / (2000 / 1000))"
  using calculate_price_impact_amm_formula [of 100 1000 2000 "3/1000"] by simp

section \<open>Properties of the final-output bound\<close>

text \<open>
  Claim C6 (amended).  Whenever a transaction is prepared, the encoded \<open>min_amount_out\<close>
  is at least the repayment \<open>required_repay = L + int(L \<cdot> fee / 100)\<close>; with
  \<open>m = int(expected_out_wei \<cdot> (1 - 0.005))\<close> it equals \<open>max m (required_repay + 1)\<close>
  whenever \<open>m \<noteq> required_repay\<close>, and equals \<open>required_repay\<close> itself when
  \<open>m = required_repay\<close>.  A transaction is prepared exactly when
  \<open>expected_out_wei > required_repay\<close>.
\<close>

theorem min_amount_out_bound:
  "(min_amount_out base_out_dec base_decimals loan_amount fee_percent \<noteq> None \<longleftrightarrow>
      expected_out_wei base_out_dec base_decimals > required_repay loan_amount fee_percent) \<and>
   (\<forall>v. min_amount_out base_out_dec base_decimals loan_amount fee_percent = Some v \<longrightarrow>
      required_repay loan_amount fee_percent \<le> v \<and>
      (py_int (real_of_int (expected_out_wei base_out_dec base_decimals) * (1 - slippage))
          \<noteq> required_repay loan_amount fee_percent \<longrightarrow>
        v = max (py_int (real_of_int (expected_out_wei base_out_dec base_decimals) * (1 - slippage)))
                (required_repay loan_amount fee_percent + 1)) \<and>
      (py_int (real_of_int (expected_out_wei base_out_dec base_decimals) * (1 - slippage))
          = required_repay loan_amount fee_percent \<longrightarrow>
        v = required_repay loan_amount fee_percent))"
  by (auto simp add: min_amount_out_def Let_def split: if_splits)

theorem min_amount_out_bound_witness:
  "min_amount_out 1010 6 995000000 (1 / 20) = Some 1004950000 \<and>
   required_repay 995000000 (1 / 20) = 995497500 \<and>
   expected_out_wei 1010 6 = 1010000000 \<and>
   py_int (real_of_int (expected_out_wei 1010 6) * (1 - slippage)) = 1004950000"
proof -
  have e: "expected_out_wei 1010 6 = 1010000000" by (simp add: expected_out_wei_def py_int_def)
  have r: "required_repay 995000000 (1 / 20) = 995497500"
    by (simp add: required_repay_def flash_loan_fee_amount_def py_int_def)
  have m: "py_int (real_of_int (expected_out_wei 1010 6) * (1 - slippage)) = 1004950000"
    by (simp add: e slippage_def py_int_def)
  have s: "min_amount_out 1010 6 995000000 (1 / 20) = Some 1004950000"
    by (simp add: min_amount_out_def Let_def e r slippage_def py_int_def)
  show ?thesis
    using min_amount_out_bound [of 1010 6 995000000 "1 / 20"] e r m s by simp
qed

text \<open>
  Claim C6 as stated fails: a loan of 995 USDC (6 decimals) at the 0.05 % fee (\<open>1/20\<close> percent)
  with a modelled output of 1000.5 USDC passes the profitability test, and the encoded minimum
  is the repayment itself, 995497500 wei: neither \<open>max m (repay + 1)\<close> nor strictly above
  the repayment.
\<close>

theorem min_amount_out_equals_repay:
  "min_amount_out (2001 / 2) 6 995000000 (1 / 20) = Some (required_repay 995000000 (1 / 20)) \<and>
   max (py_int (real_of_int (expected_out_wei (2001 / 2) 6) * (1 - slippage)))
       (required_repay 995000000 (1 / 20) + 1) = required_repay 995000000 (1 / 20) + 1"
proof -
  have e: "expected_out_wei (2001 / 2) 6 = 1000500000" by (simp add: expected_out_wei_def py_int_def)
  have r: "required_repay 995000000 (1 / 20) = 995497500"
    by (simp add: required_repay_def flash_loan_fee_amount_def py_int_def)
  show ?thesis by (simp add: min_amount_out_def Let_def e r slippage_def py_int_def)
qed

section \<open>Properties of the CREATE2 derivation\<close>

text \<open>
  Claim C10.  The derived pair address does not depend on the order of the two token
  arguments: the tokens are ordered by their lower-cased text before encoding, and two
  arguments with the same lower-cased text have the same checksummed form.
\<close>

theorem compute_pair_address_create2_symmetric:
  "compute_pair_address_create2 lib factory a b h = compute_pair_address_create2 lib factory b a h"
proof -
  consider "lower a < lower b" | "lower b < lower a" | "lower a = lower b"
    using less_linear by blast
  then show ?thesis
  proof cases
    case 1
    then have "\<not> lower b < lower a" by simp
    with 1 show ?thesis by (simp add: compute_pair_address_create2_def)
  next
    case 2
    then have "\<not> lower a < lower b" by simp
    with 2 show ?thesis by (simp add: compute_pair_address_create2_def)
  next
    case 3
    then show ?thesis by (simp add: compute_pair_address_create2_def to_checksum_address_def)
  qed
qed

section \<open>Properties of the reserves fetcher\<close>

lemma set_dict_set: "set (dict_set d k v) \<subseteq> insert (k, v) (set d)"
  by (induction d k v rule: dict_set.induct) auto

lemma set_dict_update: "set (dict_update d other) \<subseteq> set d \<union> set other"
proof -
  have "set (fold (\<lambda>(k, v) acc. dict_set acc k v) other d) \<subseteq> set d \<union> set other" for d
  proof (induction other arbitrary: d)
    case Nil
    then show ?case by simp
  next
    case (Cons p other)
    obtain k v where p: "p = (k, v)" by (cases p)
    have "set (fold (\<lambda>(k, v) acc. dict_set acc k v) other (dict_set d k v))
            \<subseteq> set (dict_set d k v) \<union> set other" by (rule Cons.IH)
    also have "\<dots> \<subseteq> set d \<union> set (p # other)" using set_dict_set [of d k v] p by auto
    finally show ?case by (simp add: p)
  qed
  then show ?thesis by (simp add: dict_update_def)
qed

lemma parse_results_entries:
  "e \<in> set (parse_results results i ps acc) \<Longrightarrow>
     e \<in> set acc \<or> (\<exists>j < length ps. i + j < length results \<and> fst e = ps ! j \<and>
        (case results ! (i + j) of
           Result (Some data) \<Rightarrow>
             data \<noteq> [] \<and> data \<noteq> ''0x'' \<and>
             decode_reserves data = Some (reserve0 (snd e), reserve1 (snd e)) \<and>
             token0 (snd e) = None \<and> token1 (snd e) = None
         | _ \<Rightarrow> False))"
proof (induction ps arbitrary: i acc)
  case Nil
  then show ?case by simp
next
  case (Cons p ps)
  let ?Q = "\<lambda>i ps j. j < length ps \<and> i + j < length results \<and> fst e = ps ! j \<and>
        (case results ! (i + j) of
           Result (Some data) \<Rightarrow>
             data \<noteq> [] \<and> data \<noteq> ''0x'' \<and>
             decode_reserves data = Some (reserve0 (snd e), reserve1 (snd e)) \<and>
             token0 (snd e) = None \<and> token1 (snd e) = None
         | _ \<Rightarrow> False)"
  have shift: "\<exists>j. ?Q i (p # ps) j" if "\<exists>j. ?Q (i + 1) ps j"
  proof -
    from that obtain j where "?Q (i + 1) ps j" by blast
    then have "?Q i (p # ps) (Suc j)" by simp
    then show ?thesis by blast
  qed
  have skip: ?case if "e \<in> set (parse_results results (i + 1) ps acc)"
    using Cons.IH [OF that] shift by blast
  show ?case
  proof (cases "i < length results")
    case False
    then show ?thesis using Cons.prems skip by simp
  next
    case True
    show ?thesis
    proof (cases "results ! i")
      case NoResult
      then show ?thesis using Cons.prems skip True by simp
    next
      case (Result d)
      show ?thesis
      proof (cases d)
        case None
        then show ?thesis using Cons.prems skip True Result by simp
      next
        case (Some data)
        show ?thesis
        proof (cases "data \<noteq> [] \<and> data \<noteq> ''0x''")
          case False
          then show ?thesis using Cons.prems skip True Result Some by auto
        next
          case ok: True
          show ?thesis
          proof (cases "decode_reserves data")
            case None
            then show ?thesis using Cons.prems True Result Some ok by simp
          next
            case (Some rr)
            obtain r0 r1 where rr: "rr = (r0, r1)" by (cases rr)
            let ?v = "\<lparr>reserve0 = r0, reserve1 = r1, token0 = None, token1 = None\<rparr>"
            have "e \<in> set (parse_results results (i + 1) ps (dict_set acc p ?v))"
              using Cons.prems True Result \<open>d = Some data\<close> ok Some rr by simp
            from Cons.IH [OF this]
            consider "e \<in> set (dict_set acc p ?v)" | "\<exists>j. ?Q (i + 1) ps j" by blast
            then show ?thesis
            proof cases
              case 1
              then have "e \<in> set acc \<or> e = (p, ?v)" using set_dict_set [of acc p ?v] by auto
              then show ?thesis
              proof
                assume "e = (p, ?v)"
                then have "?Q i (p # ps) 0"
                  using True Result \<open>d = Some data\<close> ok Some rr by simp
                then show ?thesis by blast
              qed simp
            next
              case 2
              then show ?thesis using shift by blast
            qed
          qed
        qed
      qed
    qed
  qed
qed

lemma get_reserves_batch_entries:
  assumes "get_reserves_batch nr batch = Returned m" "e \<in> set m"
  shows "\<exists>results i. nr = Response (RespList results) \<and> entry_of results batch i e"
proof -
  from assms have ne: "batch \<noteq> []" by (auto simp add: get_reserves_batch_def split: if_splits)
  from assms ne obtain results where r: "nr = Response (RespList results)"
    and m: "m = parse_results results 0 batch []"
    by (auto simp add: get_reserves_batch_def split: net_result.splits rpc_response.splits)
  from parse_results_entries [of e results 0 batch "[]"] assms(2) m
  obtain j where "entry_of results batch j e" by (auto simp add: entry_of_def)
  then show ?thesis using r by blast
qed

lemma get_reserves_batch_keys:
  assumes "get_reserves_batch nr batch = Returned m"
  shows "fst ` set m \<subseteq> set batch"
proof
  fix k assume "k \<in> fst ` set m"
  then obtain e where e: "e \<in> set m" "k = fst e" by auto
  from get_reserves_batch_entries [OF assms e(1)] show "k \<in> set batch"
    using e(2) by (auto simp add: entry_of_def)
qed

lemma process_batch_cases:
  obtains
    (answered) r where "get_reserves_batch (net path batch) batch = Returned r" "r \<noteq> []"
      "process_batch_with_retry net path batch rc = (r, [(batch, rc)])"
  | (gave_up) "process_batch_with_retry net path batch rc = ([], [(batch, rc)])"
      "get_reserves_batch (net path batch) batch = Returned [] \<longrightarrow> \<not> (length batch > 2 \<and> rc < 3)"
  | (split) "get_reserves_batch (net path batch) batch = Returned []" "length batch > 2" "rc < 3"
      "process_batch_with_retry net path batch rc =
         (dict_update (dict_update []
            (fst (process_batch_with_retry net (path @ [0]) (take (length batch div 2) batch) (rc + 1))))
            (fst (process_batch_with_retry net (path @ [1]) (drop (length batch div 2) batch) (rc + 1))),
          (batch, rc) #
            snd (process_batch_with_retry net (path @ [0]) (take (length batch div 2) batch) (rc + 1)) @
            snd (process_batch_with_retry net (path @ [1]) (drop (length batch div 2) batch) (rc + 1)))"
  | (retry) e where "get_reserves_batch (net path batch) batch = Raised e" "rc < 3"
      "process_batch_with_retry net path batch rc =
         (fst (process_batch_with_retry net (path @ [2]) batch (rc + 1)),
          (batch, rc) # snd (process_batch_with_retry net (path @ [2]) batch (rc + 1)))"
proof (cases "get_reserves_batch (net path batch) batch")
  case (Returned r)
  show ?thesis
  proof (cases "r \<noteq> []")
    case True
    then show ?thesis using Returned answered
      by (simp add: process_batch_with_retry.simps [of net path batch rc])
  next
    case False
    show ?thesis
    proof (cases "length batch > 2 \<and> rc < 3")
      case True
      then show ?thesis using Returned False split
        by (simp add: process_batch_with_retry.simps [of net path batch rc] MIN_BATCH_SIZE_def
              MAX_RETRIES_def Let_def split_beta)
    next
      case no: False
      then show ?thesis using Returned False gave_up
        by (simp add: process_batch_with_retry.simps [of net path batch rc] MIN_BATCH_SIZE_def
              MAX_RETRIES_def)
    qed
  qed
next
  case (Raised e)
  show ?thesis
  proof (cases "rc < 3 \<and> e \<noteq> OtherError")
    case True
    then show ?thesis using Raised retry
      by (cases e) (simp_all add: process_batch_with_retry.simps [of net path batch rc]
              MAX_RETRIES_def Let_def split_beta)
  next
    case False
    then show ?thesis using Raised gave_up
      by (cases e) (simp_all add: process_batch_with_retry.simps [of net path batch rc]
              MAX_RETRIES_def)
  qed
qed

lemma process_batch_log_depth:
  "rc \<le> 3 \<Longrightarrow> \<forall>(b, d) \<in> set (snd (process_batch_with_retry net path batch rc)). rc \<le> d \<and> d \<le> 3"
proof (induction "3 - rc" arbitrary: path batch rc)
  case 0
  then have rc: "rc = 3" by simp
  show ?case
    by (cases rule: process_batch_cases [of net path batch rc]) (simp_all add: rc)
next
  case (Suc k)
  then have k: "k = 3 - (rc + 1)" "rc + 1 \<le> 3" by simp_all
  note ih = Suc.hyps(1) [OF k]
  show ?case
  proof (cases rule: process_batch_cases [of net path batch rc])
    case (answered r)
    then show ?thesis using Suc.prems by simp
  next
    case gave_up
    then show ?thesis using Suc.prems by simp
  next
    case split
    show ?thesis unfolding split(4)
      using ih [of "path @ [0]" "take (length batch div 2) batch"]
        ih [of "path @ [1]" "drop (length batch div 2) batch"] Suc.prems
      by fastforce
  next
    case (retry e)
    show ?thesis unfolding retry(3)
      using ih [of "path @ [2]" batch] Suc.prems by fastforce
  qed
qed

lemma issued_by_mono: "issued_by net A e \<Longrightarrow> A \<subseteq> B \<Longrightarrow> issued_by net B e"
  unfolding issued_by_def by blast

lemma process_batch_entries:
  "e \<in> set (fst (process_batch_with_retry net path batch rc)) \<Longrightarrow> issued_by net (set batch) e"
proof (induction "3 - rc" arbitrary: path batch rc)
  case 0
  show ?case
  proof (cases rule: process_batch_cases [of net path batch rc])
    case (answered r)
    then show ?thesis using "0.prems" get_reserves_batch_entries [OF answered(1), of e]
      unfolding issued_by_def by auto
  next
    case gave_up
    then show ?thesis using "0.prems" by simp
  next
    case split
    then show ?thesis using "0.hyps" by simp
  next
    case (retry e')
    then show ?thesis using "0.hyps" by simp
  qed
next
  case (Suc k)
  then have k: "k = 3 - (rc + 1)" by simp
  note ih = Suc.hyps(1) [OF k]
  show ?case
  proof (cases rule: process_batch_cases [of net path batch rc])
    case (answered r)
    then show ?thesis using Suc.prems get_reserves_batch_entries [OF answered(1), of e]
      unfolding issued_by_def by auto
  next
    case gave_up
    then show ?thesis using Suc.prems by simp
  next
    case split
    let ?L = "process_batch_with_retry net (path @ [0]) (take (length batch div 2) batch) (rc + 1)"
    let ?R = "process_batch_with_retry net (path @ [1]) (drop (length batch div 2) batch) (rc + 1)"
    have "e \<in> set (fst ?L) \<or> e \<in> set (fst ?R)"
      using Suc.prems set_dict_update [of "dict_update [] (fst ?L)" "fst ?R"]
        set_dict_update [of "[]" "fst ?L"] unfolding split(4) by auto
    then show ?thesis
    proof
      assume "e \<in> set (fst ?L)"
      from ih [OF this] show ?thesis by (rule issued_by_mono) (rule set_take_subset)
    next
      assume "e \<in> set (fst ?R)"
      from ih [OF this] show ?thesis by (rule issued_by_mono) (rule set_drop_subset)
    qed
  next
    case (retry e')
    then show ?thesis using Suc.prems ih [of "path @ [2]" batch] by simp
  qed
qed

lemma concat_make_batches: "concat (make_batches xs) = xs"
proof (induction xs rule: make_batches.induct)
  case (1 xs)
  show ?case
  proof (cases "xs = []")
    case True
    then show ?thesis by (simp add: make_batches.simps [of "[]"])
  next
    case False
    then show ?thesis using "1.IH" by (simp add: make_batches.simps [of xs])
  qed
qed

lemma run_batches_entries:
  "e \<in> set (run_batches net i bs acc) \<Longrightarrow> e \<in> set acc \<or> issued_by net (set (concat bs)) e"
proof (induction bs arbitrary: i acc)
  case Nil
  then show ?case by simp
next
  case (Cons b bs)
  let ?r = "fst (process_batch_with_retry net [i] b 0)"
  from Cons.prems have "e \<in> set (run_batches net (i + 1) bs (dict_update acc ?r))" by simp
  from Cons.IH [OF this]
  consider "e \<in> set acc" | "e \<in> set ?r" | "issued_by net (set (concat bs)) e"
    using set_dict_update [of acc ?r] by auto
  then show ?case
  proof cases
    case 1
    then show ?thesis by simp
  next
    case 2
    from process_batch_entries [OF this] have "issued_by net (set (concat (b # bs))) e"
      by (rule issued_by_mono) simp
    then show ?thesis by simp
  next
    case 3
    then have "issued_by net (set (concat (b # bs))) e" by (rule issued_by_mono) simp
    then show ?thesis by simp
  qed
qed

lemma get_reserves_many_issued:
  assumes "e \<in> set (get_reserves_many net pairs)"
  shows "issued_by net (set pairs) e"
proof -
  from assms have "e \<in> set (run_batches net 0 (make_batches (remdups pairs)) [])"
    by (simp add: get_reserves_many_def reserves_of_unique_def split: if_splits)
  from run_batches_entries [OF this] show ?thesis by (simp add: concat_make_batches)
qed

lemma get_reserves_many_sample:
  "get_reserves_many net_sample [''0xaa'', ''0xbb''] =
     [(''0xaa'', \<lparr>reserve0 = 500, reserve1 = 1000, token0 = None, token1 = None\<rparr>),
      (''0xbb'', \<lparr>reserve0 = 500, reserve1 = 1000, token0 = None, token1 = None\<rparr>)]"
  by code_simp

lemma net_failing_batch: "batch \<noteq> [] \<Longrightarrow> get_reserves_batch (net_failing path batch) batch = Returned []"
  by (simp add: get_reserves_batch_def net_failing_def)

lemma process_batch_failing_five:
  "process_batch_with_retry net_failing [0] [''a'', ''b'', ''c'', ''d'', ''e''] 0 =
     ([], [([''a'', ''b'', ''c'', ''d'', ''e''], 0), ([''a'', ''b''], 1), ([''c'', ''d'', ''e''], 1),
           ([''c''], 2), ([''d'', ''e''], 2)])"
  by code_simp

text \<open>
  Claim C3 (amended).  Every entry of the map returned by \<open>get_reserves_many\<close> was stored for
  a request of a batch that the network answered with an array: its key is the pair
  address at the position of that request, an address of the input, and its reserves are the
  two words decoded from the result at the same position, whatever their value.  The same
  holds for the map of one \<open>get_reserves_batch\<close> call.  The fetcher does not test the
  reserves for positivity.
\<close>

theorem get_reserves_entries_issued:
  "(\<forall>e \<in> set (get_reserves_many net pairs). issued_by net (set pairs) e \<and> fst e \<in> set pairs) \<and>
   (\<forall>m. get_reserves_batch nr batch = Returned m \<longrightarrow>
      (\<forall>e \<in> set m. \<exists>results i. nr = Response (RespList results) \<and> entry_of results batch i e))"
proof (intro conjI ballI allI impI)
  fix e assume e: "e \<in> set (get_reserves_many net pairs)"
  show i: "issued_by net (set pairs) e" by (rule get_reserves_many_issued [OF e])
  then show "fst e \<in> set pairs" by (auto simp add: issued_by_def entry_of_def)
next
  fix m e assume "get_reserves_batch nr batch = Returned m" "e \<in> set m"
  then show "\<exists>results i. nr = Response (RespList results) \<and> entry_of results batch i e"
    by (rule get_reserves_batch_entries)
qed

theorem get_reserves_entries_issued_witness:
  "(''0xbb'', \<lparr>reserve0 = 500, reserve1 = 1000, token0 = None, token1 = None\<rparr>)
      \<in> set (get_reserves_many net_sample [''0xaa'', ''0xbb'']) \<and>
   issued_by net_sample (set [''0xaa'', ''0xbb''])
      (''0xbb'', \<lparr>reserve0 = 500, reserve1 = 1000, token0 = None, token1 = None\<rparr>) \<and>
   get_reserves_batch (net_sample [] [''0xaa'']) [''0xaa''] =
      Returned [(''0xaa'', \<lparr>reserve0 = 500, reserve1 = 1000, token0 = None, token1 = None\<rparr>)] \<and>
   (\<exists>results i. net_sample [] [''0xaa''] = Response (RespList results) \<and>
      entry_of results [''0xaa''] i
        (''0xaa'', \<lparr>reserve0 = 500, reserve1 = 1000, token0 = None, token1 = None\<rparr>))"
proof -
  let ?e = "(''0xbb'', \<lparr>reserve0 = 500, reserve1 = 1000, token0 = None, token1 = None\<rparr>)"
  let ?a = "(''0xaa'', \<lparr>reserve0 = 500, reserve1 = 1000, token0 = None, token1 = None\<rparr>)"
  note t = get_reserves_entries_issued [of net_sample "[''0xaa'', ''0xbb'']" "net_sample [] [''0xaa'']" "[''0xaa'']"]
  have m: "?e \<in> set (get_reserves_many net_sample [''0xaa'', ''0xbb''])"
    unfolding get_reserves_many_sample by simp
  have b: "get_reserves_batch (net_sample [] [''0xaa'']) [''0xaa''] = Returned [?a]"
    by code_simp
  have 1: "issued_by net_sample (set [''0xaa'', ''0xbb'']) ?e" using t m by blast
  have 2: "\<exists>results i. net_sample [] [''0xaa''] = Response (RespList results) \<and>
      entry_of results [''0xaa''] i ?a"
    using t b by simp
  show ?thesis using m b 1 2 by blast
qed

text \<open>
  Claim C3 as stated fails: a pool whose \<open>getReserves()\<close> returns zeros is stored in the map
  with \<open>reserve0 = 0\<close> and \<open>reserve1 = 0\<close>.
\<close>

theorem get_reserves_many_zero_reserves:
  "get_reserves_many net_zero_reserves [''0xaa''] =
     [(''0xaa'', \<lparr>reserve0 = 0, reserve1 = 0, token0 = None, token1 = None\<rparr>)]"
  by code_simp

text \<open>
  Claim C7.  When a batch yields an empty map, has more than 2 items and \<open>retry_count < 3\<close>,
  it is cut at \<open>len(batch) // 2\<close>, both halves are processed with \<open>retry_count + 1\<close> and
  their maps are merged; a batch of at most 2 items that yields an empty map returns the
  empty map after its single request; and started at \<open>retry_count = 0\<close>, as
  \<open>get_reserves_many\<close> starts it, no request is posted deeper than depth 3.  (That the two
  halves are awaited concurrently is not part of the model.)
\<close>

theorem process_batch_with_retry_halving:
  "(get_reserves_batch (net path batch) batch = Returned [] \<and> length batch > 2 \<and> rc < 3 \<longrightarrow>
      process_batch_with_retry net path batch rc =
         (dict_update (dict_update []
            (fst (process_batch_with_retry net (path @ [0]) (take (length batch div 2) batch) (rc + 1))))
            (fst (process_batch_with_retry net (path @ [1]) (drop (length batch div 2) batch) (rc + 1))),
          (batch, rc) #
            snd (process_batch_with_retry net (path @ [0]) (take (length batch div 2) batch) (rc + 1)) @
            snd (process_batch_with_retry net (path @ [1]) (drop (length batch div 2) batch) (rc + 1)))) \<and>
   (get_reserves_batch (net path batch) batch = Returned [] \<and> length batch \<le> 2 \<longrightarrow>
      process_batch_with_retry net path batch rc = ([], [(batch, rc)])) \<and>
   (\<forall>(b, d) \<in> set (snd (process_batch_with_retry net path batch 0)). d \<le> 3)"
proof (intro conjI impI)
  assume a: "get_reserves_batch (net path batch) batch = Returned [] \<and> length batch > 2 \<and> rc < 3"
  show "process_batch_with_retry net path batch rc =
         (dict_update (dict_update []
            (fst (process_batch_with_retry net (path @ [0]) (take (length batch div 2) batch) (rc + 1))))
            (fst (process_batch_with_retry net (path @ [1]) (drop (length batch div 2) batch) (rc + 1))),
          (batch, rc) #
            snd (process_batch_with_retry net (path @ [0]) (take (length batch div 2) batch) (rc + 1)) @
            snd (process_batch_with_retry net (path @ [1]) (drop (length batch div 2) batch) (rc + 1)))"
    using a by (cases rule: process_batch_cases [of net path batch rc]) simp_all
next
  assume a: "get_reserves_batch (net path batch) batch = Returned [] \<and> length batch \<le> 2"
  show "process_batch_with_retry net path batch rc = ([], [(batch, rc)])"
    using a by (cases rule: process_batch_cases [of net path batch rc]) simp_all
next
  show "\<forall>(b, d) \<in> set (snd (process_batch_with_retry net path batch 0)). d \<le> 3"
    using process_batch_log_depth [of 0 net path batch] by fastforce
qed

theorem process_batch_with_retry_halving_witness:
  "get_reserves_batch (net_failing [0] [''a'', ''b'', ''c'', ''d'', ''e'']) [''a'', ''b'', ''c'', ''d'', ''e''] = Returned [] \<and>
   process_batch_with_retry net_failing [0] [''a'', ''b'', ''c'', ''d'', ''e''] 0 =
     (dict_update (dict_update []
        (fst (process_batch_with_retry net_failing [0, 0] [''a'', ''b''] 1)))
        (fst (process_batch_with_retry net_failing [0, 1] [''c'', ''d'', ''e''] 1)),
      ([''a'', ''b'', ''c'', ''d'', ''e''], 0) #
        snd (process_batch_with_retry net_failing [0, 0] [''a'', ''b''] 1) @
        snd (process_batch_with_retry net_failing [0, 1] [''c'', ''d'', ''e''] 1)) \<and>
   get_reserves_batch (net_failing [0, 0] [''a'', ''b'']) [''a'', ''b''] = Returned [] \<and>
   process_batch_with_retry net_failing [0, 0] [''a'', ''b''] 1 = ([], [([''a'', ''b''], 1)]) \<and>
   (([''d'', ''e''], 2) \<in> set (snd (process_batch_with_retry net_failing [0] [''a'', ''b'', ''c'', ''d'', ''e''] 0)) \<and>
    (2::nat) \<le> 3)"
proof -
  note t5 = process_batch_with_retry_halving [of net_failing "[0]" "[''a'', ''b'', ''c'', ''d'', ''e'']" 0]
  note t2 = process_batch_with_retry_halving [of net_failing "[0, 0]" "[''a'', ''b'']" 1]
  have f5: "get_reserves_batch (net_failing [0] [''a'', ''b'', ''c'', ''d'', ''e'']) [''a'', ''b'', ''c'', ''d'', ''e''] = Returned []"
    by (rule net_failing_batch) simp
  have f2: "get_reserves_batch (net_failing [0, 0] [''a'', ''b'']) [''a'', ''b''] = Returned []"
    by (rule net_failing_batch) simp
  have 1: "process_batch_with_retry net_failing [0] [''a'', ''b'', ''c'', ''d'', ''e''] 0 =
     (dict_update (dict_update []
        (fst (process_batch_with_retry net_failing [0, 0] [''a'', ''b''] 1)))
        (fst (process_batch_with_retry net_failing [0, 1] [''c'', ''d'', ''e''] 1)),
      ([''a'', ''b'', ''c'', ''d'', ''e''], 0) #
        snd (process_batch_with_retry net_failing [0, 0] [''a'', ''b''] 1) @
        snd (process_batch_with_retry net_failing [0, 1] [''c'', ''d'', ''e''] 1))"
    using t5 f5 by simp
  have 2: "process_batch_with_retry net_failing [0, 0] [''a'', ''b''] 1 = ([], [([''a'', ''b''], 1)])"
    using t2 f2 by simp
  have 3: "([''d'', ''e''], 2) \<in> set (snd (process_batch_with_retry net_failing [0] [''a'', ''b'', ''c'', ''d'', ''e''] 0))"
    unfolding process_batch_failing_five by simp
  show ?thesis using f5 f2 1 2 3 by simp
qed

section \<open>Properties of the candidate evaluator\<close>

lemma call_size_from_lut_two_args: "call_size_from_lut l [s, r] = Inl TypeError"
  by (simp add: call_size_from_lut_def)

lemma combo_sizing_type_error: "combo_sizing cfg (Some l) spread rs = Caught TypeError"
  by (simp add: combo_sizing_def call_size_from_lut_two_args Let_def)

lemma size_step_lookup:
  assumes "size_step cfg l total_fees base_token spread b1 b2 flipped = Some (sz, pr, im, f)"
    and "0 < b1" "0 < b2"
    and "MIN_RESERVE_USD / dict_get_default (BASE_TOKEN_USD_PRICES cfg) (lower base_token) 1 \<le> b1"
    and "MIN_RESERVE_USD / dict_get_default (BASE_TOKEN_USD_PRICES cfg) (lower base_token) 1 \<le> b2"
  shows "size_from_lut l spread b1 b2 = Some sz" and "sz = 0 \<longrightarrow> caller_drops (sz, pr, im, f)"
proof -
  show "size_from_lut l spread b1 b2 = Some sz"
    using assms
    by (auto simp add: size_step_def Let_def split: if_splits bind_splits)
  show "sz = 0 \<longrightarrow> caller_drops (sz, pr, im, f)" by (simp add: caller_drops_def)
qed

lemma find_optimal_trade_size_example:
  "find_optimal_trade_size_tail cfg_example decimals_example lut_example (13 / 20) usdc 0 0 0
      pool_cheap pool_dear (Some (usdc, weth)) (Some (usdc, weth)) = Some (199000, 1393 / 2, 5, False)"
  by code_simp


























end
